theory Spec2Isabelle
  imports Main
begin

section \<open>Characters and strings\<close>

text \<open>
  A Python \<open>str\<close> is a sequence of code points. The model uses \<^typ>\<open>string\<close>, whose
  characters are the code points U+0000 to U+00FF; \<open>len\<close> is \<^const>\<open>length\<close>. The
  predicates below are Python's \<open>str.isspace\<close>, \<open>str.isupper\<close> and \<open>str.isalpha\<close> on
  a one-character string of that range.
\<close>

definition isspace :: "char \<Rightarrow> bool" where
  "isspace c = (let n = (of_char c :: nat) in
     (9 \<le> n \<and> n \<le> 13) \<or> (28 \<le> n \<and> n \<le> 32) \<or> n = 133 \<or> n = 160)"

definition isupper :: "char \<Rightarrow> bool" where
  "isupper c = (let n = (of_char c :: nat) in
     (65 \<le> n \<and> n \<le> 90) \<or> (192 \<le> n \<and> n \<le> 214) \<or> (216 \<le> n \<and> n \<le> 222))"

definition isalpha :: "char \<Rightarrow> bool" where
  "isalpha c = (let n = (of_char c :: nat) in
     (65 \<le> n \<and> n \<le> 90) \<or> (97 \<le> n \<and> n \<le> 122) \<or> n = 170 \<or> n = 181 \<or> n = 186 \<or>
     (192 \<le> n \<and> n \<le> 214) \<or> (216 \<le> n \<and> n \<le> 246) \<or> (248 \<le> n \<and> n \<le> 255))"

text \<open>\<open>s.lstrip()\<close>, \<open>s.rstrip()\<close> and \<open>s.strip()\<close> with no argument remove whitespace.\<close>

definition lstrip :: "string \<Rightarrow> string" where
  "lstrip s = dropWhile isspace s"

definition rstrip :: "string \<Rightarrow> string" where
  "rstrip s = rev (dropWhile isspace (rev s))"

definition strip :: "string \<Rightarrow> string" where
  "strip s = rstrip (lstrip s)"

text \<open>\<open>line.rstrip('\n')\<close> removes every trailing newline.\<close>

definition rstrip_nl :: "string \<Rightarrow> string" where
  "rstrip_nl s = rev (dropWhile (\<lambda>c. c = CHR 0x0A) (rev s))"

text \<open>\<open>s.startswith(p)\<close> and \<open>p in s\<close>.\<close>

fun startswith :: "string \<Rightarrow> string \<Rightarrow> bool" where
  "startswith s [] = True"
| "startswith [] (p # ps) = False"
| "startswith (c # cs) (p # ps) = (c = p \<and> startswith cs ps)"

fun contains :: "string \<Rightarrow> string \<Rightarrow> bool" where
  "contains [] p = (p = [])"
| "contains (c # cs) p = (startswith (c # cs) p \<or> contains cs p)"

text \<open>
  \<open>s.split(sep, maxsplit=1)[1]\<close>: the text after the first occurrence of \<open>sep\<close>, when
  there is one.
\<close>

fun after_first :: "string \<Rightarrow> string \<Rightarrow> string option" where
  "after_first [] sep = (if sep = [] then Some [] else None)"
| "after_first (c # cs) sep =
     (if startswith (c # cs) sep then Some (drop (length sep) (c # cs))
      else after_first cs sep)"

text \<open>\<open>s.split('\n')\<close>: the pieces between newlines; there is always at least one.\<close>

fun split_nl :: "string \<Rightarrow> string list" where
  "split_nl [] = [[]]"
| "split_nl (c # cs) =
     (if c = CHR 0x0A then [] # split_nl cs
      else (case split_nl cs of [] \<Rightarrow> [[c]] | l # ls \<Rightarrow> (c # l) # ls))"

text \<open>\<open>'\n'.join(lines)\<close>.\<close>

fun join_nl :: "string list \<Rightarrow> string" where
  "join_nl [] = []"
| "join_nl [l] = l"
| "join_nl (l # m # ls) = l @ CHR 0x0A # join_nl (m # ls)"

text \<open>
  \<open>s.expandtabs()\<close>: a tab becomes the spaces up to the next multiple of 8 of the
  column, and the column restarts after a newline or a carriage return.
\<close>

fun expandtabs_from :: "nat \<Rightarrow> string \<Rightarrow> string" where
  "expandtabs_from col [] = []"
| "expandtabs_from col (c # cs) =
     (if c = CHR 0x09
      then replicate (8 - col mod 8) CHR '' '' @ expandtabs_from (col + (8 - col mod 8)) cs
      else c # expandtabs_from (if c = CHR 0x0A \<or> c = CHR 0x0D then 0 else col + 1) cs)"

definition expandtabs :: "string \<Rightarrow> string" where
  "expandtabs s = expandtabs_from 0 s"

text \<open>
  Iterating over a file opened in text mode yields the physical lines, each with its
  terminating newline (the last one has none when the text does not end in a newline).
\<close>

fun readlines :: "string \<Rightarrow> string list" where
  "readlines [] = []"
| "readlines (c # cs) =
     (if c = CHR 0x0A then [c] # readlines cs
      else (case readlines cs of [] \<Rightarrow> [[c]] | l # ls \<Rightarrow> (c # l) # ls))"

section \<open>Regular expressions\<close>

text \<open>
  The two naming patterns are compiled regular expressions used through
  \<open>pattern.match(name)\<close>. A pattern is kept as data: a character class is a list of
  inclusive ranges, \<open>r+\<close> is \<open>r\<close> followed by \<open>r*\<close>. \<open>rmatch r s\<close> lists what is left of
  \<open>s\<close> after each way of matching \<open>r\<close> against a prefix of \<open>s\<close>; an iteration of a
  starred pattern that consumes nothing is not repeated.
\<close>

datatype rexp =
    Cls "(char \<times> char) list"
  | Seq rexp rexp
  | Star rexp

definition Plus :: "rexp \<Rightarrow> rexp" where
  "Plus r = Seq r (Star r)"

definition in_class :: "(char \<times> char) list \<Rightarrow> char \<Rightarrow> bool" where
  "in_class rs c =
     list_ex (\<lambda>(lo, hi). (of_char lo :: nat) \<le> of_char c \<and> (of_char c :: nat) \<le> of_char hi) rs"

function rmatch :: "rexp \<Rightarrow> string \<Rightarrow> string list" where
  "rmatch (Cls rs) s = (case s of [] \<Rightarrow> [] | c # cs \<Rightarrow> if in_class rs c then [cs] else [])"
| "rmatch (Seq a b) s = remdups (concat (map (rmatch b) (rmatch a s)))"
| "rmatch (Star a) s =
     remdups (s # concat (map (\<lambda>t. if length t < length s then rmatch (Star a) t else [])
                              (rmatch a s)))"
  by pat_completeness auto
termination
  by (relation "inv_image (less_than <*lex*> less_than) (\<lambda>(r, s). (size r, length s))") auto

text \<open>
  \<open>pattern.match(s)\<close> for a pattern \<open>^r$\<close>: the match starts at the beginning of \<open>s\<close>,
  and \<open>$\<close> accepts the end of the string or the position before a newline that ends
  the string.
\<close>

definition re_match :: "rexp \<Rightarrow> string \<Rightarrow> bool" where
  "re_match r s = list_ex (\<lambda>t. t = [] \<or> t = [CHR 0x0A]) (rmatch r s)"

definition upper_az :: "(char \<times> char) list" where
  "upper_az = [(CHR ''A'', CHR ''Z'')]"

definition alnum :: "(char \<times> char) list" where
  "alnum = [(CHR ''a'', CHR ''z''), (CHR ''A'', CHR ''Z''), (CHR ''0'', CHR ''9'')]"

definition upper_digit :: "(char \<times> char) list" where
  "upper_digit = [(CHR ''A'', CHR ''Z''), (CHR ''0'', CHR ''9'')]"

definition snake_first :: "(char \<times> char) list" where
  "snake_first = [(CHR ''a'', CHR ''z''), (CHR ''_'', CHR ''_'')]"

definition snake_rest :: "(char \<times> char) list" where
  "snake_rest = [(CHR ''a'', CHR ''z''), (CHR ''0'', CHR ''9''), (CHR ''_'', CHR ''_'')]"

text \<open>\<^verbatim>\<open>CAPWORDS_REGEX = re.compile(r'^[A-Z][a-zA-Z0-9]+(?:[A-Z0-9][a-zA-Z0-9]*)*$')\<close>\<close>

definition CAPWORDS_REGEX :: rexp where
  "CAPWORDS_REGEX =
     Seq (Cls upper_az)
       (Seq (Plus (Cls alnum))
            (Star (Seq (Cls upper_digit) (Star (Cls alnum)))))"

text \<open>\<^verbatim>\<open>SNAKE_CASE_REGEX = re.compile(r'^[a-z_][a-z0-9_]*$')\<close>\<close>

definition SNAKE_CASE_REGEX :: rexp where
  "SNAKE_CASE_REGEX = Seq (Cls snake_first) (Star (Cls snake_rest))"

section \<open>Findings\<close>

text \<open>
  A finding is the pair \<open>(line, message)\<close> that the code appends to its list. Each
  message of the source is one f-string template; the model keeps the template as a
  constructor and the values formatted into it as its arguments.
\<close>

datatype entity = ClassEntity string | FunctionEntity string

datatype message =
    ClassNotCapWords string int
  | ClassNoDocstring string int
  | FunctionFound string int
  | FunctionNotSnakeCase string int
  | FunctionNoDocstring string int
  | DocstringTooShort entity int nat
  | DocstringNoCapital entity int
  | DocstringNoPunctuation entity int
  | SingleLetterVariable string int
  | NestedFor int
  | NestedWhile int
  | CommentTooLong int nat
  | ExtraneousComment int string
  | CommentLineTooLong int nat
  | CodeLineTooLong int nat
  | MultipleImports int
  | MultipleFromImports int
  | SyntaxErrorFound int

type_synonym finding = "int \<times> message"

section \<open>The syntax tree\<close>

text \<open>
  The node kinds of Python's \<open>ast\<close> module that the visitor or \<open>ast.get_docstring\<close>
  tell apart, and the \<open>async for\<close> loop, each with its child fields in the order of
  \<open>_fields\<close>, which is the order \<open>generic_visit\<close> follows. Every other node kind is
  \<open>Other\<close> with its child nodes in that order.
\<close>

datatype literal = Str string | NonStr

datatype node =
    Module (body: "node list")
  | ClassDef (name: string) (lineno: int) (bases: "node list") (keyword_nodes: "node list")
      (body: "node list") (decorator_list: "node list")
  | FunctionDef (name: string) (lineno: int) (args: node) (body: "node list")
      (decorator_list: "node list") (returns: "node option")
  | AsyncFunctionDef (name: string) (lineno: int) (args: node) (body: "node list")
      (decorator_list: "node list") (returns: "node option")
  | Assign (lineno: int) (targets: "node list") (val: node)
  | For (lineno: int) (target: node) (iter: node) (body: "node list") (orelse: "node list")
  | While (lineno: int) (test: node) (body: "node list") (orelse: "node list")
  | AsyncFor (lineno: int) (target: node) (iter: node) (body: "node list")
      (orelse: "node list")
  | Expr (val: node)
  | Constant literal
  | Name (ident: string) (ctx: node)
  | Other "node list"

text \<open>
  The expression context of a name, \<open>Load()\<close> or \<open>Store()\<close>, is a node without
  fields; so are \<open>Pass()\<close> and the empty \<open>arguments\<close> of a definition.
\<close>

definition Load :: node where
  "Load = Other []"

definition Store :: node where
  "Store = Other []"

definition Pass :: node where
  "Pass = Other []"

definition no_arguments :: node where
  "no_arguments = Other []"

subsection \<open>The docstring accessor\<close>

text \<open>
  \<open>inspect.cleandoc\<close> of the standard library: expand tabs, split at newlines, find the
  least indentation of the non-blank lines after the first (\<open>None\<close> stands for the
  initial \<open>sys.maxsize\<close>), strip the first line on the left, cut that indentation off the
  other lines, drop the empty lines at the end and at the start, join.
\<close>

fun margin_of :: "string list \<Rightarrow> nat option \<Rightarrow> nat option" where
  "margin_of [] margin = margin"
| "margin_of (line # rest) margin =
     (let content = length (lstrip line) in
      if content \<noteq> 0
      then margin_of rest
             (Some (case margin of None \<Rightarrow> length line - content
                    | Some m \<Rightarrow> min m (length line - content)))
      else margin_of rest margin)"

definition cleandoc :: "string \<Rightarrow> string" where
  "cleandoc doc =
     (let lines = split_nl (expandtabs doc);
          margin = margin_of (tl lines) None;
          lines1 = (case lines of [] \<Rightarrow> [] | l # ls \<Rightarrow> lstrip l # ls);
          lines2 = (case margin of None \<Rightarrow> lines1
                    | Some m \<Rightarrow> (case lines1 of [] \<Rightarrow> [] | l # ls \<Rightarrow> l # map (drop m) ls));
          lines3 = rev (dropWhile (\<lambda>l. l = []) (rev lines2));
          lines4 = dropWhile (\<lambda>l. l = []) lines3
      in join_nl lines4)"

text \<open>
  \<open>ast.get_docstring(node)\<close> for a definition with the given body: the cleaned text of
  a leading expression statement that is a string constant, and no value otherwise.
\<close>

fun get_docstring :: "node list \<Rightarrow> string option" where
  "get_docstring (Expr (Constant (Str text)) # rest) = Some (cleandoc text)"
| "get_docstring b = None"

section \<open>The rule visitor\<close>

record linter =
  issues :: "finding list"
  loop_depth :: int

definition SnarkLinter :: linter where
  "SnarkLinter = \<lparr>issues = [], loop_depth = 0\<rparr>"

definition append_issue :: "finding \<Rightarrow> linter \<Rightarrow> linter" where
  "append_issue f s = s\<lparr>issues := issues s @ [f]\<rparr>"

text \<open>
  \<open>_check_docstring_rules\<close>. Both callers pass a docstring that is not empty, which
  \<open>docstring[0]\<close> and \<open>docstring[-1]\<close> need; the model takes it as its first character
  and the rest.
\<close>

definition check_docstring_rules :: "char \<Rightarrow> string \<Rightarrow> int \<Rightarrow> entity \<Rightarrow> linter \<Rightarrow> linter" where
  "check_docstring_rules first_char rest ln entity_name s =
     (let docstring = first_char # rest;
          s1 = (if length docstring < 10
                then append_issue (ln, DocstringTooShort entity_name ln (length docstring)) s
                else s);
          s2 = (if \<not> isupper first_char
                then append_issue (ln, DocstringNoCapital entity_name ln) s1
                else s1);
          last_char = last docstring
      in if last_char \<notin> {CHR ''.'', CHR ''!'', CHR ''?''}
         then append_issue (ln, DocstringNoPunctuation entity_name ln) s2
         else s2)"

text \<open>The checks of \<open>visit_ClassDef\<close> and \<open>visit_FunctionDef\<close> before they descend.\<close>

definition class_rules :: "string \<Rightarrow> int \<Rightarrow> node list \<Rightarrow> linter \<Rightarrow> linter" where
  "class_rules nm ln bd s =
     (let s1 = (if \<not> re_match CAPWORDS_REGEX nm
                then append_issue (ln, ClassNotCapWords nm ln) s
                else s)
      in case get_docstring bd of
           None \<Rightarrow> append_issue (ln, ClassNoDocstring nm ln) s1
         | Some [] \<Rightarrow> append_issue (ln, ClassNoDocstring nm ln) s1
         | Some (c # cs) \<Rightarrow> check_docstring_rules c cs ln (ClassEntity nm) s1)"

definition function_rules :: "string \<Rightarrow> int \<Rightarrow> node list \<Rightarrow> linter \<Rightarrow> linter" where
  "function_rules nm ln bd s =
     (let s1 = append_issue (ln, FunctionFound nm ln) s;
          s2 = (if \<not> re_match SNAKE_CASE_REGEX nm
                then append_issue (ln, FunctionNotSnakeCase nm ln) s1
                else s1)
      in case get_docstring bd of
           None \<Rightarrow> append_issue (ln, FunctionNoDocstring nm ln) s2
         | Some [] \<Rightarrow> append_issue (ln, FunctionNoDocstring nm ln) s2
         | Some (c # cs) \<Rightarrow> check_docstring_rules c cs ln (FunctionEntity nm) s2)"

text \<open>The loop over \<open>node.targets\<close> in \<open>visit_Assign\<close>.\<close>

fun assign_rules :: "int \<Rightarrow> node list \<Rightarrow> linter \<Rightarrow> linter" where
  "assign_rules ln [] s = s"
| "assign_rules ln (Name var_name c # ts) s =
     assign_rules ln ts
       (if length var_name = 1 \<and> list_all isalpha var_name
        then append_issue (ln, SingleLetterVariable var_name ln) s
        else s)"
| "assign_rules ln (t # ts) s = assign_rules ln ts s"

text \<open>The start of \<open>visit_For\<close> and of \<open>visit_While\<close>, and their last statement.\<close>

definition enter_loop :: "finding \<Rightarrow> linter \<Rightarrow> linter" where
  "enter_loop f s =
     (let s1 = s\<lparr>loop_depth := loop_depth s + 1\<rparr>
      in if loop_depth s1 > 1 then append_issue f s1 else s1)"

definition leave_loop :: "linter \<Rightarrow> linter" where
  "leave_loop s = s\<lparr>loop_depth := loop_depth s - 1\<rparr>"

text \<open>
  \<open>visit\<close> dispatches on the node kind to \<open>visit_ClassDef\<close>, \<open>visit_FunctionDef\<close>,
  \<open>visit_Assign\<close>, \<open>visit_For\<close> or \<open>visit_While\<close>, and to \<open>generic_visit\<close> for every
  other kind, \<open>AsyncFunctionDef\<close> and \<open>AsyncFor\<close> among them; \<open>generic_visit\<close> visits
  the child nodes field by field. This is the visitor on a call stack without a limit.
\<close>

fun visit :: "node \<Rightarrow> linter \<Rightarrow> linter"
  and visit_list :: "node list \<Rightarrow> linter \<Rightarrow> linter"
  and visit_opt :: "node option \<Rightarrow> linter \<Rightarrow> linter" where
  "visit (Module bd) s = visit_list bd s"
| "visit (ClassDef nm ln bs ks bd ds) s =
     visit_list ds (visit_list bd (visit_list ks (visit_list bs (class_rules nm ln bd s))))"
| "visit (FunctionDef nm ln ar bd ds rt) s =
     visit_opt rt (visit_list ds (visit_list bd (visit ar (function_rules nm ln bd s))))"
| "visit (AsyncFunctionDef nm ln ar bd ds rt) s =
     visit_opt rt (visit_list ds (visit_list bd (visit ar s)))"
| "visit (Assign ln ts v) s = visit v (visit_list ts (assign_rules ln ts s))"
| "visit (For ln tg it bd el) s =
     leave_loop (visit_list el (visit_list bd (visit it (visit tg
       (enter_loop (ln, NestedFor ln) s)))))"
| "visit (While ln ts bd el) s =
     leave_loop (visit_list el (visit_list bd (visit ts
       (enter_loop (ln, NestedWhile ln) s))))"
| "visit (AsyncFor ln tg it bd el) s =
     visit_list el (visit_list bd (visit it (visit tg s)))"
| "visit (Expr v) s = visit v s"
| "visit (Constant c) s = s"
| "visit (Name x c) s = visit c s"
| "visit (Other cs) s = visit_list cs s"
| "visit_list [] s = s"
| "visit_list (n # ns) s = visit_list ns (visit n s)"
| "visit_opt None s = s"
| "visit_opt (Some n) s = visit n s"

subsection \<open>The visitor under the interpreter's recursion limit\<close>

text \<open>
  \<open>visit\<close> and \<open>generic_visit\<close> call each other once for every level of the tree, and
  the interpreter raises \<open>RecursionError\<close> when its call stack is exhausted.
  \<open>visit_rl k\<close> is the visitor with room for \<open>k\<close> nested calls of \<open>visit\<close>; \<open>Raised\<close> is
  the outcome of a call that ended in \<open>RecursionError\<close>. An exception leaves every method
  on the way up at once: the statements after the call that raised are not executed,
  and the fields of the linter keep what was assigned before. The result is the
  outcome together with the linter as the call left it.
\<close>

datatype outcome = Returned | Raised

definition and_then ::
  "outcome \<times> linter \<Rightarrow> (linter \<Rightarrow> outcome \<times> linter) \<Rightarrow> outcome \<times> linter" where
  "and_then r f = (case r of (Returned, s) \<Rightarrow> f s | (Raised, s) \<Rightarrow> (Raised, s))"

fun visit_rl :: "nat \<Rightarrow> node \<Rightarrow> linter \<Rightarrow> outcome \<times> linter"
  and visit_list_rl :: "nat \<Rightarrow> node list \<Rightarrow> linter \<Rightarrow> outcome \<times> linter"
  and visit_opt_rl :: "nat \<Rightarrow> node option \<Rightarrow> linter \<Rightarrow> outcome \<times> linter" where
  "visit_rl 0 n s = (Raised, s)"
| "visit_rl (Suc k) (Module bd) s = visit_list_rl k bd s"
| "visit_rl (Suc k) (ClassDef nm ln bs ks bd ds) s =
     and_then (visit_list_rl k bs (class_rules nm ln bd s)) (\<lambda>s1.
     and_then (visit_list_rl k ks s1) (\<lambda>s2.
     and_then (visit_list_rl k bd s2) (\<lambda>s3.
     visit_list_rl k ds s3)))"
| "visit_rl (Suc k) (FunctionDef nm ln ar bd ds rt) s =
     and_then (visit_rl k ar (function_rules nm ln bd s)) (\<lambda>s1.
     and_then (visit_list_rl k bd s1) (\<lambda>s2.
     and_then (visit_list_rl k ds s2) (\<lambda>s3.
     visit_opt_rl k rt s3)))"
| "visit_rl (Suc k) (AsyncFunctionDef nm ln ar bd ds rt) s =
     and_then (visit_rl k ar s) (\<lambda>s1.
     and_then (visit_list_rl k bd s1) (\<lambda>s2.
     and_then (visit_list_rl k ds s2) (\<lambda>s3.
     visit_opt_rl k rt s3)))"
| "visit_rl (Suc k) (Assign ln ts v) s =
     and_then (visit_list_rl k ts (assign_rules ln ts s)) (\<lambda>s1.
     visit_rl k v s1)"
| "visit_rl (Suc k) (For ln tg it bd el) s =
     and_then
       (and_then (visit_rl k tg (enter_loop (ln, NestedFor ln) s)) (\<lambda>s1.
        and_then (visit_rl k it s1) (\<lambda>s2.
        and_then (visit_list_rl k bd s2) (\<lambda>s3.
        visit_list_rl k el s3))))
       (\<lambda>s4. (Returned, leave_loop s4))"
| "visit_rl (Suc k) (While ln ts bd el) s =
     and_then
       (and_then (visit_rl k ts (enter_loop (ln, NestedWhile ln) s)) (\<lambda>s1.
        and_then (visit_list_rl k bd s1) (\<lambda>s2.
        visit_list_rl k el s2)))
       (\<lambda>s3. (Returned, leave_loop s3))"
| "visit_rl (Suc k) (AsyncFor ln tg it bd el) s =
     and_then (visit_rl k tg s) (\<lambda>s1.
     and_then (visit_rl k it s1) (\<lambda>s2.
     and_then (visit_list_rl k bd s2) (\<lambda>s3.
     visit_list_rl k el s3)))"
| "visit_rl (Suc k) (Expr v) s = visit_rl k v s"
| "visit_rl (Suc k) (Constant c) s = (Returned, s)"
| "visit_rl (Suc k) (Name x c) s = visit_rl k c s"
| "visit_rl (Suc k) (Other cs) s = visit_list_rl k cs s"
| "visit_list_rl k [] s = (Returned, s)"
| "visit_list_rl k (n # ns) s = and_then (visit_rl k n s) (\<lambda>s1. visit_list_rl k ns s1)"
| "visit_opt_rl k None s = (Returned, s)"
| "visit_opt_rl k (Some n) s = visit_rl k n s"

text \<open>The number of nested calls of \<open>visit\<close> that a tree needs.\<close>

fun height :: "node \<Rightarrow> nat"
  and height_list :: "node list \<Rightarrow> nat"
  and height_opt :: "node option \<Rightarrow> nat" where
  "height (Module bd) = Suc (height_list bd)"
| "height (ClassDef nm ln bs ks bd ds) =
     Suc (max (max (height_list bs) (height_list ks)) (max (height_list bd) (height_list ds)))"
| "height (FunctionDef nm ln ar bd ds rt) =
     Suc (max (max (height ar) (height_list bd)) (max (height_list ds) (height_opt rt)))"
| "height (AsyncFunctionDef nm ln ar bd ds rt) =
     Suc (max (max (height ar) (height_list bd)) (max (height_list ds) (height_opt rt)))"
| "height (Assign ln ts v) = Suc (max (height_list ts) (height v))"
| "height (For ln tg it bd el) =
     Suc (max (max (height tg) (height it)) (max (height_list bd) (height_list el)))"
| "height (While ln ts bd el) =
     Suc (max (height ts) (max (height_list bd) (height_list el)))"
| "height (AsyncFor ln tg it bd el) =
     Suc (max (max (height tg) (height it)) (max (height_list bd) (height_list el)))"
| "height (Expr v) = Suc (height v)"
| "height (Constant c) = 1"
| "height (Name x c) = Suc (height c)"
| "height (Other cs) = Suc (height_list cs)"
| "height_list [] = 0"
| "height_list (n # ns) = max (height n) (height_list ns)"
| "height_opt None = 0"
| "height_opt (Some n) = height n"

subsection \<open>The nodes in visiting order\<close>

text \<open>
  \<open>walk d n\<close> lists the nodes of the tree \<open>n\<close> in the order in which the visitor reaches
  them, each with the number of \<open>For\<close> and \<open>While\<close> nodes of \<open>n\<close> around it, counted
  from \<open>d\<close>; an \<open>AsyncFor\<close> node around a node is not counted.
\<close>

fun walk :: "int \<Rightarrow> node \<Rightarrow> (int \<times> node) list"
  and walk_list :: "int \<Rightarrow> node list \<Rightarrow> (int \<times> node) list"
  and walk_opt :: "int \<Rightarrow> node option \<Rightarrow> (int \<times> node) list" where
  "walk d (Module bd) = (d, Module bd) # walk_list d bd"
| "walk d (ClassDef nm ln bs ks bd ds) =
     (d, ClassDef nm ln bs ks bd ds)
       # walk_list d bs @ walk_list d ks @ walk_list d bd @ walk_list d ds"
| "walk d (FunctionDef nm ln ar bd ds rt) =
     (d, FunctionDef nm ln ar bd ds rt)
       # walk d ar @ walk_list d bd @ walk_list d ds @ walk_opt d rt"
| "walk d (AsyncFunctionDef nm ln ar bd ds rt) =
     (d, AsyncFunctionDef nm ln ar bd ds rt)
       # walk d ar @ walk_list d bd @ walk_list d ds @ walk_opt d rt"
| "walk d (Assign ln ts v) = (d, Assign ln ts v) # walk_list d ts @ walk d v"
| "walk d (For ln tg it bd el) =
     (d, For ln tg it bd el)
       # walk (d + 1) tg @ walk (d + 1) it @ walk_list (d + 1) bd @ walk_list (d + 1) el"
| "walk d (While ln ts bd el) =
     (d, While ln ts bd el)
       # walk (d + 1) ts @ walk_list (d + 1) bd @ walk_list (d + 1) el"
| "walk d (AsyncFor ln tg it bd el) =
     (d, AsyncFor ln tg it bd el)
       # walk d tg @ walk d it @ walk_list d bd @ walk_list d el"
| "walk d (Expr v) = (d, Expr v) # walk d v"
| "walk d (Constant c) = [(d, Constant c)]"
| "walk d (Name x c) = (d, Name x c) # walk d c"
| "walk d (Other cs) = (d, Other cs) # walk_list d cs"
| "walk_list d [] = []"
| "walk_list d (n # ns) = walk d n @ walk_list d ns"
| "walk_opt d None = []"
| "walk_opt d (Some n) = walk d n"

text \<open>
  What the visitor method of one node appends before it descends, for a node with \<open>d\<close>
  loops around it; \<open>added f\<close> is what \<open>f\<close> appends to the list of a new linter.
\<close>

definition added :: "(linter \<Rightarrow> linter) \<Rightarrow> finding list" where
  "added f = issues (f SnarkLinter)"

fun node_findings :: "int \<times> node \<Rightarrow> finding list" where
  "node_findings (d, ClassDef nm ln bs ks bd ds) = added (class_rules nm ln bd)"
| "node_findings (d, FunctionDef nm ln ar bd ds rt) = added (function_rules nm ln bd)"
| "node_findings (d, Assign ln ts v) = added (assign_rules ln ts)"
| "node_findings (d, For ln tg it bd el) = (if d + 1 > 1 then [(ln, NestedFor ln)] else [])"
| "node_findings (d, While ln ts bd el) = (if d + 1 > 1 then [(ln, NestedWhile ln)] else [])"
| "node_findings (d, n) = []"

subsection \<open>The findings of each rule\<close>

fun is_nesting :: "finding \<Rightarrow> bool" where
  "is_nesting (l, NestedFor ln) = True"
| "is_nesting (l, NestedWhile ln) = True"
| "is_nesting f = False"

fun is_function_found :: "finding \<Rightarrow> bool" where
  "is_function_found (l, FunctionFound nm ln) = True"
| "is_function_found f = False"

fun is_single_letter :: "finding \<Rightarrow> bool" where
  "is_single_letter (l, SingleLetterVariable x ln) = True"
| "is_single_letter f = False"

fun is_class_naming :: "finding \<Rightarrow> bool" where
  "is_class_naming (l, ClassNotCapWords nm ln) = True"
| "is_class_naming f = False"

text \<open>
  The nesting finding of a node that has \<open>d\<close> counted loops around it: entering a
  \<open>For\<close> or \<open>While\<close> node makes the depth \<open>d + 1\<close>; any other node, an \<open>AsyncFor\<close> node
  too, has none.
\<close>

fun nesting_of :: "int \<times> node \<Rightarrow> finding list" where
  "nesting_of (d, For ln tg it bd el) = (if d + 1 > 1 then [(ln, NestedFor ln)] else [])"
| "nesting_of (d, While ln ts bd el) = (if d + 1 > 1 then [(ln, NestedWhile ln)] else [])"
| "nesting_of (d, n) = []"

text \<open>The existence finding of a node: one for a \<open>def\<close>, none for anything else.\<close>

fun existence_of :: "int \<times> node \<Rightarrow> finding list" where
  "existence_of (d, FunctionDef nm ln ar bd ds rt) = [(ln, FunctionFound nm ln)]"
| "existence_of (d, n) = []"

text \<open>
  The single-letter findings of a node: one for every target of an assignment
  statement that is a name of one alphabetic character.
\<close>

fun name_of :: "node \<Rightarrow> string list" where
  "name_of (Name x c) = [x]"
| "name_of n = []"

fun single_letter_of :: "int \<times> node \<Rightarrow> finding list" where
  "single_letter_of (d, Assign ln ts v) =
     [(ln, SingleLetterVariable x ln). t \<leftarrow> ts, x \<leftarrow> name_of t,
                                       length x = 1 \<and> list_all isalpha x]"
| "single_letter_of (d, n) = []"

text \<open>
  The names that \<open>CAPWORDS_REGEX\<close> is shown to match: an uppercase letter of A to Z
  followed by one or more letters or digits, where \<open>$\<close> lets one newline follow.
\<close>

definition chomp :: "string \<Rightarrow> string" where
  "chomp s = (if s \<noteq> [] \<and> last s = CHR 0x0A then butlast s else s)"

definition capwords_shape :: "string \<Rightarrow> bool" where
  "capwords_shape nm =
     (case chomp nm of
        [] \<Rightarrow> False
      | c # cs \<Rightarrow> in_class upper_az c \<and> cs \<noteq> [] \<and> list_all (in_class alnum) cs)"

text \<open>The naming finding of a node: one for a class whose name has not that shape.\<close>

fun class_naming_of :: "int \<times> node \<Rightarrow> finding list" where
  "class_naming_of (d, ClassDef nm ln bs ks bd ds) =
     (if capwords_shape nm then [] else [(ln, ClassNotCapWords nm ln)])"
| "class_naming_of (d, n) = []"

section \<open>The scans over the file\<close>

text \<open>
  The functions of the source take a path and open the file themselves. A file is
  modelled by what the standard library makes of its bytes: the text that reading it
  with the utf-8 codec gives (none when decoding fails), the outcome of \<open>ast.parse\<close> on
  that text, and the tokens of \<open>tokenize.tokenize\<close> (none when the tokenizer raises).
  \<open>ast.parse\<close> returns a tree, or raises \<open>SyntaxError\<close> with an optional line, or raises
  another exception: \<open>RecursionError\<close> or \<open>MemoryError\<close> on deep nesting, \<open>ValueError\<close> on
  a null byte. The file system maps a path to its file, when there is one.
\<close>

datatype error =
    FileNotFoundError
  | UnicodeDecodeError
  | RecursionError
  | MemoryError
  | ValueError
  | TokenizerError

datatype token_type = COMMENT | OTHER_TOKEN

record token =
  tok_type :: token_type
  tok_string :: string
  start_row :: int

datatype parse_result = Parsed node | SyntaxError "int option" | OtherError error

record source_file =
  source_text :: "string option"
  parse :: parse_result
  tokens :: "token list option"

type_synonym file_system = "string \<Rightarrow> source_file option"

text \<open>\<open>find_comment_issues\<close>: one finding for every comment token.\<close>

fun comment_issues_of :: "token list \<Rightarrow> finding list" where
  "comment_issues_of [] = []"
| "comment_issues_of (tok # rest) =
     (if tok_type tok = COMMENT
      then (let line_num = start_row tok;
                comment_text = strip (tok_string tok)
            in [(line_num,
                 if length comment_text > 72
                 then CommentTooLong line_num (length comment_text)
                 else ExtraneousComment line_num comment_text)])
      else []) @ comment_issues_of rest"

definition find_comment_issues :: "file_system \<Rightarrow> string \<Rightarrow> error + finding list" where
  "find_comment_issues fs file_path =
     (case fs file_path of
        None \<Rightarrow> Inr []
      | Some f \<Rightarrow>
          (case tokens f of
             None \<Rightarrow> Inl TokenizerError
           | Some toks \<Rightarrow> Inr (comment_issues_of toks)))"

text \<open>\<open>find_line_length_issues\<close>: the loop over \<open>enumerate(f, start=1)\<close>.\<close>

definition line_length_issue :: "int \<Rightarrow> string \<Rightarrow> finding list" where
  "line_length_issue line_no line =
     (let raw_line = rstrip_nl line in
      if strip raw_line = [] then []
      else if startswith (lstrip raw_line) ''#''
      then (if length raw_line > 72
            then [(line_no, CommentLineTooLong line_no (length raw_line))] else [])
      else (if length raw_line > 79
            then [(line_no, CodeLineTooLong line_no (length raw_line))] else []))"

fun line_length_issues_from :: "int \<Rightarrow> string list \<Rightarrow> finding list" where
  "line_length_issues_from line_no [] = []"
| "line_length_issues_from line_no (line # rest) =
     line_length_issue line_no line @ line_length_issues_from (line_no + 1) rest"

definition find_line_length_issues :: "file_system \<Rightarrow> string \<Rightarrow> error + finding list" where
  "find_line_length_issues fs file_path =
     (case fs file_path of
        None \<Rightarrow> Inr []
      | Some f \<Rightarrow>
          (case source_text f of
             None \<Rightarrow> Inl UnicodeDecodeError
           | Some src \<Rightarrow> Inr (line_length_issues_from 1 (readlines src))))"

text \<open>\<open>find_import_issues\<close>.\<close>

definition import_issue :: "int \<Rightarrow> string \<Rightarrow> finding list" where
  "import_issue line_no line =
     (let stripped = strip line in
      if startswith stripped ''import ''
      then (let after_import = drop (length ''import '') stripped in
            if contains after_import '','' then [(line_no, MultipleImports line_no)] else [])
      else if startswith stripped ''from '' \<and> contains stripped '' import ''
      then (case after_first stripped '' import '' of
              None \<Rightarrow> []
            | Some to_import \<Rightarrow>
                if contains to_import '','' then [(line_no, MultipleFromImports line_no)]
                else [])
      else [])"

fun import_issues_from :: "int \<Rightarrow> string list \<Rightarrow> finding list" where
  "import_issues_from line_no [] = []"
| "import_issues_from line_no (line # rest) =
     import_issue line_no line @ import_issues_from (line_no + 1) rest"

definition find_import_issues :: "file_system \<Rightarrow> string \<Rightarrow> error + finding list" where
  "find_import_issues fs file_path =
     (case fs file_path of
        None \<Rightarrow> Inr []
      | Some f \<Rightarrow>
          (case source_text f of
             None \<Rightarrow> Inl UnicodeDecodeError
           | Some src \<Rightarrow> Inr (import_issues_from 1 (readlines src))))"

section \<open>The engine\<close>

text \<open>
  \<open>run_snark_linter\<close>. Only a \<open>SyntaxError\<close> of the read-and-parse block is caught; any
  other exception leaves the function: another exception of the parser, the
  \<open>RecursionError\<close> of \<open>linter.visit(tree)\<close>, the exception of a scan. \<open>limit\<close> is the
  room for nested calls of \<open>visit\<close> that the interpreter has when the engine calls the
  visitor. \<open>e.lineno if e.lineno else 1\<close> takes a missing line and the line 0 to 1.
  \<open>list.sort\<close> with a key is a stable sort.
\<close>

definition syntax_error_line :: "int option \<Rightarrow> int" where
  "syntax_error_line e_lineno =
     (case e_lineno of None \<Rightarrow> 1 | Some l \<Rightarrow> if l = 0 then 1 else l)"

definition run_snark_linter :: "nat \<Rightarrow> file_system \<Rightarrow> string \<Rightarrow> error + finding list" where
  "run_snark_linter limit fs file_path =
     (case fs file_path of
        None \<Rightarrow> Inl FileNotFoundError
      | Some f \<Rightarrow>
          (case source_text f of
             None \<Rightarrow> Inl UnicodeDecodeError
           | Some source_code \<Rightarrow>
               (case parse f of
                  SyntaxError e_lineno \<Rightarrow>
                    (let line_number = syntax_error_line e_lineno
                     in Inr [(line_number, SyntaxErrorFound line_number)])
                | OtherError e \<Rightarrow> Inl e
                | Parsed tree \<Rightarrow>
                    (case visit_rl limit tree SnarkLinter of
                       (Raised, linter) \<Rightarrow> Inl RecursionError
                     | (Returned, linter) \<Rightarrow>
                         (let ast_issues = issues linter in
                          case find_comment_issues fs file_path of
                            Inl e \<Rightarrow> Inl e
                          | Inr comment_issues \<Rightarrow>
                              (case find_line_length_issues fs file_path of
                                 Inl e \<Rightarrow> Inl e
                               | Inr length_issues \<Rightarrow>
                                   (case find_import_issues fs file_path of
                                      Inl e \<Rightarrow> Inl e
                                    | Inr import_issues \<Rightarrow>
                                        Inr (sort_key fst
                                               (ast_issues @ comment_issues
                                                @ length_issues @ import_issues)))))))))"

section \<open>Example inputs\<close>





text \<open>A file that does not parse: the parser reports a syntax error on line 3.\<close>

definition broken_file :: source_file where
  "broken_file =
     \<lparr>source_text = Some (''import a, b'' @ [CHR 0x0A] @ ''# hi'' @ [CHR 0x0A] @ ''x = (''),
      parse = SyntaxError (Some 3),
      tokens = None\<rparr>"

definition broken_fs :: file_system where
  "broken_fs = [''a.py'' \<mapsto> broken_file]"

text \<open>
  A file that does not parse and for which the parser raises no \<open>SyntaxError\<close>: the one
  line \<open>x = ---...---1\<close> with 3000 minus signs, on which \<open>ast.parse\<close> raises
  \<open>RecursionError\<close>.
\<close>

definition deep_file :: source_file where
  "deep_file =
     \<lparr>source_text = Some (''x = '' @ replicate 3000 CHR ''-'' @ ''1'' @ [CHR 0x0A]),
      parse = OtherError RecursionError,
      tokens = None\<rparr>"

definition deep_fs :: file_system where
  "deep_fs = [''a.py'' \<mapsto> deep_file]"

text \<open>
  A file that parses and that the tokenizer rejects: \<open>ast.parse\<close> ignores the encoding
  declaration of a text that is already decoded, and \<open>tokenize.tokenize\<close> reads it from
  the bytes and raises on the unknown encoding.
\<close>

definition undeclared_tree :: node where
  "undeclared_tree = Module [Assign 2 [Name ''x'' Store] (Constant NonStr)]"

definition undeclared_file :: source_file where
  "undeclared_file =
     \<lparr>source_text = Some (''# coding: foobar'' @ [CHR 0x0A] @ ''x = 1'' @ [CHR 0x0A]),
      parse = Parsed undeclared_tree,
      tokens = None\<rparr>"

definition undeclared_fs :: file_system where
  "undeclared_fs = [''a.py'' \<mapsto> undeclared_file]"

text \<open>
  A file of two lines, each ended by a newline: the code line \<open>x = 1\<close> and a comment of
  73 characters.
\<close>

definition long_comment :: string where
  "long_comment = CHR ''#'' # replicate 72 CHR ''a''"

definition long_comment_file :: source_file where
  "long_comment_file =
     \<lparr>source_text = Some (concat (map (\<lambda>l. l @ [CHR 0x0A]) [''x = 1'']) @ long_comment
                           @ [CHR 0x0A]),
      parse = Parsed (Module [Assign 1 [Name ''x'' Store] (Constant NonStr)]),
      tokens = Some [\<lparr>tok_type = COMMENT, tok_string = long_comment, start_row = 2\<rparr>]\<rparr>"

definition long_comment_fs :: file_system where
  "long_comment_fs = [''a.py'' \<mapsto> long_comment_file]"

text \<open>
  Three loops inside one another, as in
  \<^verbatim>\<open>for i in x:\<close> / \<^verbatim>\<open>while c:\<close> / \<^verbatim>\<open>for j in y: pass\<close> on the lines 1 to 3.
\<close>

definition three_loops :: node where
  "three_loops =
     Module [For 1 (Name ''i'' Store) (Name ''x'' Load)
               [While 2 (Name ''c'' Load)
                  [For 3 (Name ''j'' Store) (Name ''y'' Load) [Pass] []] []] []]"

text \<open>
  \<^verbatim>\<open>for i in x:\<close> on line 1 with \<^verbatim>\<open>async for j in y: pass\<close> on line 2 as its body, and
  \<^verbatim>\<open>async for k in z:\<close> on line 3 with \<^verbatim>\<open>for l in w: pass\<close> on line 4 as its body.
\<close>

definition async_loops :: node where
  "async_loops =
     Module [For 1 (Name ''i'' Store) (Name ''x'' Load)
               [AsyncFor 2 (Name ''j'' Store) (Name ''y'' Load) [Pass] []] [],
             AsyncFor 3 (Name ''k'' Store) (Name ''z'' Load)
               [For 4 (Name ''l'' Store) (Name ''w'' Load) [Pass] []] []]"

text \<open>A loop whose body is the expression statement \<open>f(g(y))\<close>.\<close>

definition loop_with_calls :: node where
  "loop_with_calls =
     For 1 (Name ''i'' Store) (Name ''x'' Load)
       [Expr (Other [Name ''f'' Load, Other [Name ''g'' Load, Name ''y'' Load]])] []"

text \<open>The file of that loop, and a \<open>while\<close> loop with an empty body list.\<close>

definition loop_file :: source_file where
  "loop_file =
     \<lparr>source_text = Some (''for i in x:'' @ [CHR 0x0A] @ ''    f(g(y))'' @ [CHR 0x0A]),
      parse = Parsed (Module [loop_with_calls]),
      tokens = Some []\<rparr>"

definition loop_fs :: file_system where
  "loop_fs = [''a.py'' \<mapsto> loop_file]"

definition while_loop :: node where
  "while_loop = While 1 (Name ''c'' Load) [Pass] []"

text \<open>\<^verbatim>\<open>def f(): pass\<close> on line 1 and \<^verbatim>\<open>async def g(): pass\<close> on line 2.\<close>

definition two_routines :: node where
  "two_routines =
     Module [FunctionDef ''f'' 1 no_arguments [Pass] [] None,
             AsyncFunctionDef ''g'' 2 no_arguments [Pass] [] None]"

text \<open>\<^verbatim>\<open>async def g(): pass\<close> alone.\<close>

definition async_routine :: node where
  "async_routine = Module [AsyncFunctionDef ''g'' 1 no_arguments [Pass] [] None]"

text \<open>\<^verbatim>\<open>x = y = 5\<close>: one assignment statement with the two targets \<open>x\<close> and \<open>y\<close>.\<close>

definition chained_assignment :: node where
  "chained_assignment =
     Module [Assign 1 [Name ''x'' Store, Name ''y'' Store] (Constant NonStr)]"

text \<open>
  \<^verbatim>\<open>x, y = 1, 2\<close> on line 1, \<^verbatim>\<open>a.b = 5\<close> on line 2, \<^verbatim>\<open>z += 1\<close> on line 3 and
  \<^verbatim>\<open>q = 5\<close> on line 4: a tuple target, an attribute target, an augmented assignment
  (which is not an \<open>Assign\<close> node) and a name target.
\<close>

definition assignments :: node where
  "assignments =
     Module [Assign 1 [Other [Name ''x'' Store, Name ''y'' Store, Store]]
               (Other [Constant NonStr, Constant NonStr, Load]),
             Assign 2 [Other [Name ''a'' Load, Store]] (Constant NonStr),
             Other [Name ''z'' Store, Other [], Constant NonStr],
             Assign 4 [Name ''q'' Store] (Constant NonStr)]"

text \<open>
  \<^verbatim>\<open>class MyClass123:\<close> on line 1 and \<^verbatim>\<open>class myClass:\<close> on line 3, each with the
  docstring \<open>A class.\<close>
\<close>

definition class_names :: node where
  "class_names =
     Module [ClassDef ''MyClass123'' 1 [] [] [Expr (Constant (Str ''A class.''))] [],
             ClassDef ''myClass'' 3 [] [] [Expr (Constant (Str ''A class.''))] []]"

text \<open>\<^verbatim>\<open>class A:\<close> with the docstring \<open>A class with a docstring.\<close>\<close>

definition single_letter_class :: node where
  "single_letter_class =
     Module [ClassDef ''A'' 1 [] [] [Expr (Constant (Str ''A class with a docstring.''))] []]"

text \<open>
  \<^verbatim>\<open>def f():\<close> whose first statement is a triple-quoted string that opens on line 2
  and closes on line 3 after four spaces of indentation: the literal is a newline
  followed by four spaces.
\<close>

definition blank_docstring_routine :: node where
  "blank_docstring_routine =
     Module [FunctionDef ''f'' 1 no_arguments
               [Expr (Constant (Str (CHR 0x0A # ''    ''))), Pass] [] None]"

text \<open>
  \<^verbatim>\<open>class Ab:\<close> whose first statement is a string literal of a space, a tab and two
  newlines, followed by \<^verbatim>\<open>pass\<close>.
\<close>

definition blank_docstring_class :: node where
  "blank_docstring_class =
     ClassDef ''Ab'' 1 [] []
       [Expr (Constant (Str ([CHR '' '', CHR 0x09] @ replicate 2 (CHR 0x0A)))), Pass] []"

section \<open>Properties of the line scanner\<close>

lemma line_length_issue_fst: "x \<in> set (line_length_issue n l) \<Longrightarrow> fst x = n"
  by (auto simp: line_length_issue_def Let_def split: if_splits)

lemma line_length_issues_from_fst:
  "x \<in> set (line_length_issues_from n ls) \<Longrightarrow> n \<le> fst x \<and> fst x < n + int (length ls)"
proof (induction ls arbitrary: n)
  case Nil
  then show ?case by simp
next
  case (Cons l ls)
  then show ?case by (fastforce dest: line_length_issue_fst)
qed

lemma filter_line_length_issues_from:
  "i < length ls \<Longrightarrow>
   filter (\<lambda>x. fst x = n + int i) (line_length_issues_from n ls) =
     line_length_issue (n + int i) (ls ! i)"
proof (induction ls arbitrary: n i)
  case Nil
  then show ?case by simp
next
  case (Cons l ls)
  show ?case
  proof (cases i)
    case 0
    have a: "filter (\<lambda>x. fst x = n) (line_length_issue n l) = line_length_issue n l"
      by (rule filter_True) (auto dest: line_length_issue_fst)
    have b: "filter (\<lambda>x. fst x = n) (line_length_issues_from (n + 1) ls) = []"
      by (rule filter_False) (auto dest: line_length_issues_from_fst)
    show ?thesis using 0 a b by simp
  next
    case (Suc j)
    have a: "filter (\<lambda>x. fst x = n + int i) (line_length_issue n l) = []"
      using Suc by (intro filter_False) (auto dest: line_length_issue_fst)
    have "j < length ls" using Cons.prems Suc by simp
    from Cons.IH[OF this, of "n + 1"] show ?thesis using Suc a by (simp add: algebra_simps)
  qed
qed


lemma readlines_line_newline:
  "CHR 0x0A \<notin> set l \<Longrightarrow> readlines (l @ CHR 0x0A # r) = (l @ [CHR 0x0A]) # readlines r"
  by (induction l) auto

lemma readlines_last_line:
  "CHR 0x0A \<notin> set l \<Longrightarrow> l \<noteq> [] \<Longrightarrow> readlines l = [l]"
proof (induction l)
  case Nil
  then show ?case by simp
next
  case (Cons c l)
  then show ?case by (cases l) auto
qed

lemma readlines_lines_before:
  "\<forall>l \<in> set before. CHR 0x0A \<notin> set l \<Longrightarrow>
   readlines (concat (map (\<lambda>l. l @ [CHR 0x0A]) before) @ t) =
     map (\<lambda>l. l @ [CHR 0x0A]) before @ readlines t"
  by (induction before) (simp_all add: readlines_line_newline)

lemma rstrip_nl_line:
  "CHR 0x0A \<notin> set l \<Longrightarrow> rstrip_nl l = l \<and> rstrip_nl (l @ [CHR 0x0A]) = l"
proof -
  assume n: "CHR 0x0A \<notin> set l"
  have "dropWhile (\<lambda>c. c = CHR 0x0A) (rev l) = rev l"
    using n by (cases "rev l") auto
  then show ?thesis by (simp add: rstrip_nl_def)
qed

lemma lstrip_eq_Nil: "lstrip s = [] \<longleftrightarrow> list_all isspace s"
  by (simp add: lstrip_def list_all_iff)

lemma strip_eq_Nil: "strip s = [] \<longleftrightarrow> list_all isspace s"
proof (cases "list_all isspace s")
  case True
  then have "lstrip s = []" by (simp add: lstrip_eq_Nil)
  then show ?thesis using True by (simp add: strip_def rstrip_def)
next
  case False
  then have ne: "dropWhile isspace s \<noteq> []" by (simp add: list_all_iff)
  then have "\<not> isspace (hd (dropWhile isspace s))" by (rule hd_dropWhile)
  moreover have "hd (dropWhile isspace s) \<in> set (dropWhile isspace s)" using ne by simp
  ultimately have n: "\<not> (\<forall>x \<in> set (dropWhile isspace s). isspace x)" by auto
  have "strip s = [] \<longleftrightarrow> (\<forall>x \<in> set (dropWhile isspace s). isspace x)"
    by (simp add: strip_def rstrip_def lstrip_def dropWhile_eq_Nil_conv)
  then show ?thesis using False n by simp
qed

lemma startswith_hash:
  "\<not> list_all isspace s \<Longrightarrow>
   startswith (lstrip s) ''#'' \<longleftrightarrow> hd (dropWhile isspace s) = CHR ''#''"
  by (cases "dropWhile isspace s") (auto simp: lstrip_def list_all_iff)

lemma physical_line:
  assumes "\<forall>l \<in> set before. CHR 0x0A \<notin> set l" and "CHR 0x0A \<notin> set line"
    and "rest = [] \<or> hd rest = CHR 0x0A" and "line \<noteq> []"
  shows "length before < length (readlines (concat (map (\<lambda>l. l @ [CHR 0x0A]) before) @ line @ rest))
    \<and> rstrip_nl (readlines (concat (map (\<lambda>l. l @ [CHR 0x0A]) before) @ line @ rest) ! length before)
        = line"
proof (cases rest)
  case Nil
  then show ?thesis
    using assms by (simp add: readlines_lines_before readlines_last_line nth_append rstrip_nl_line)
next
  case (Cons c r)
  then have c: "c = CHR 0x0A" using assms(3) by simp
  show ?thesis
    using assms(1,2) Cons c
    by (simp add: readlines_lines_before readlines_line_newline nth_append rstrip_nl_line)
qed

text \<open>
  C8. Let the text of a file that exists and decodes consist of the lines \<open>before\<close>,
  each ended by a newline, then the characters \<open>line\<close>, which hold no newline, then
  either nothing or a newline and the rest of the text: \<open>line\<close> is the raw physical line
  of number \<open>length before + 1\<close>, without its newline. Let \<open>line\<close> have a character that
  is not whitespace. The findings of the length scan at that line number are: when the
  first character of \<open>line\<close> after its leading whitespace is \<open>#\<close>, one finding if \<open>line\<close>
  has more than 72 characters and none otherwise; for any other line, one finding if
  \<open>line\<close> has more than 79 characters and none otherwise.
\<close>

theorem line_length_limits:
  assumes "fs p = Some f"
    and "source_text f
           = Some (concat (map (\<lambda>l. l @ [CHR 0x0A]) before) @ line @ rest)"
    and "\<forall>l \<in> set before. CHR 0x0A \<notin> set l" and "CHR 0x0A \<notin> set line"
    and "rest = [] \<or> hd rest = CHR 0x0A"
    and "\<not> list_all isspace line"
  shows "\<exists>found. find_line_length_issues fs p = Inr found \<and>
     filter (\<lambda>x. fst x = int (length before) + 1) found =
       (if hd (dropWhile isspace line) = CHR ''#''
        then (if length line > 72
              then [(int (length before) + 1,
                     CommentLineTooLong (int (length before) + 1) (length line))]
              else [])
        else (if length line > 79
              then [(int (length before) + 1,
                     CodeLineTooLong (int (length before) + 1) (length line))]
              else []))"
proof -
  let ?src = "concat (map (\<lambda>l. l @ [CHR 0x0A]) before) @ line @ rest"
  have ne: "line \<noteq> []" using assms(6) by auto
  note pl = physical_line[OF assms(3,4,5) ne]
  have f: "find_line_length_issues fs p = Inr (line_length_issues_from 1 (readlines ?src))"
    using assms(1,2) by (simp add: find_line_length_issues_def)
  have "filter (\<lambda>x. fst x = 1 + int (length before)) (line_length_issues_from 1 (readlines ?src))
      = line_length_issue (1 + int (length before)) (readlines ?src ! length before)"
    using pl by (intro filter_line_length_issues_from) simp
  then show ?thesis
    using pl assms(6) f
    by (simp add: line_length_issue_def Let_def strip_eq_Nil startswith_hash add.commute)
qed

theorem line_length_limits_witness:
  "\<exists>found. find_line_length_issues long_comment_fs ''a.py'' = Inr found \<and>
     filter (\<lambda>x. fst x = int (length [''x = 1'']) + 1) found = [(2, CommentLineTooLong 2 73)]"
proof -
  have h1: "long_comment_fs ''a.py'' = Some long_comment_file"
    by (simp add: long_comment_fs_def)
  have h2: "source_text long_comment_file
      = Some (concat (map (\<lambda>l. l @ [CHR 0x0A]) [''x = 1'']) @ long_comment @ [CHR 0x0A])"
    by (simp add: long_comment_file_def)
  have h3: "\<forall>l \<in> set [''x = 1'']. CHR 0x0A \<notin> set l" by simp
  have h4: "CHR 0x0A \<notin> set long_comment" by (simp add: long_comment_def)
  have h5: "[CHR 0x0A] = [] \<or> hd [CHR 0x0A] = CHR 0x0A" by simp
  have h6: "\<not> list_all isspace long_comment" by (simp add: long_comment_def isspace_def)
  have e: "hd (dropWhile isspace long_comment) = CHR ''#'' \<and> length long_comment = 73"
    by (simp add: long_comment_def isspace_def)
  from line_length_limits[where fs = long_comment_fs and p = "''a.py''"
      and f = long_comment_file, OF h1 h2 h3 h4 h5 h6]
  show ?thesis by (simp add: e)
qed

text \<open>The four lengths at the limits, each line ended by its newline.\<close>

lemma comment_line_of_72_characters:
  "line_length_issues_from 1 (readlines (CHR ''#'' # replicate 71 CHR ''a'' @ [CHR 0x0A])) = []"
  by code_simp

lemma comment_line_of_73_characters:
  "line_length_issues_from 1 (readlines (CHR ''#'' # replicate 72 CHR ''a'' @ [CHR 0x0A]))
     = [(1, CommentLineTooLong 1 73)]"
  by code_simp

lemma code_line_of_79_characters:
  "line_length_issues_from 1 (readlines (replicate 79 CHR ''a'' @ [CHR 0x0A])) = []"
  by code_simp

lemma code_line_of_80_characters:
  "line_length_issues_from 1 (readlines (replicate 80 CHR ''a'' @ [CHR 0x0A]))
     = [(1, CodeLineTooLong 1 80)]"
  by code_simp

section \<open>Properties of the rule visitor\<close>

lemma issues_append_issue [simp]: "issues (append_issue f s) = issues s @ [f]"
  and loop_depth_append_issue [simp]: "loop_depth (append_issue f s) = loop_depth s"
  by (simp_all add: append_issue_def)

lemma check_docstring_rules_issues:
  "issues (check_docstring_rules c cs ln e s) =
     issues s @ added (check_docstring_rules c cs ln e)"
  and check_docstring_rules_depth [simp]:
  "loop_depth (check_docstring_rules c cs ln e s) = loop_depth s"
  by (simp_all add: check_docstring_rules_def added_def SnarkLinter_def Let_def)

lemma class_rules_issues:
  "issues (class_rules nm ln bd s) = issues s @ added (class_rules nm ln bd)"
  and class_rules_depth [simp]:
  "loop_depth (class_rules nm ln bd s) = loop_depth s"
  by (simp_all add: class_rules_def added_def[of "class_rules nm ln bd"]
        check_docstring_rules_issues SnarkLinter_def Let_def
        split: option.splits list.splits)

lemma function_rules_issues:
  "issues (function_rules nm ln bd s) = issues s @ added (function_rules nm ln bd)"
  and function_rules_depth [simp]:
  "loop_depth (function_rules nm ln bd s) = loop_depth s"
  by (simp_all add: function_rules_def added_def[of "function_rules nm ln bd"]
        check_docstring_rules_issues SnarkLinter_def Let_def
        split: option.splits list.splits)

lemma assign_rules_depth [simp]: "loop_depth (assign_rules ln ts s) = loop_depth s"
  by (induction ln ts s rule: assign_rules.induct) simp_all

lemma assign_rules_append:
  "issues (assign_rules ln ts s) = issues s @ issues (assign_rules ln ts \<lparr>issues = [], loop_depth = d\<rparr>)"
proof (induction ts arbitrary: s)
  case Nil
  then show ?case by simp
next
  case (Cons t ts)
  note IH = Cons.IH
  show ?case
  proof (cases t)
    case (Name x)
    let ?f = "(ln, SingleLetterVariable x ln)"
    have a: "issues (assign_rules ln ts (append_issue ?f \<lparr>issues = [], loop_depth = d\<rparr>))
          = [?f] @ issues (assign_rules ln ts \<lparr>issues = [], loop_depth = d\<rparr>)"
      by (subst IH) simp
    show ?thesis using Name a by (simp add: IH[of "append_issue ?f s"] IH[of s])
  qed (simp_all add: IH[of s])
qed

lemma assign_rules_issues:
  "issues (assign_rules ln ts s) = issues s @ added (assign_rules ln ts)"
  unfolding added_def SnarkLinter_def by (rule assign_rules_append)

lemma enter_loop_issues:
  "issues (enter_loop (ln, m) s) = issues s @ (if loop_depth s + 1 > 1 then [(ln, m)] else [])"
  and enter_loop_depth [simp]: "loop_depth (enter_loop f s) = loop_depth s + 1"
  by (simp_all add: enter_loop_def Let_def)

lemma leave_loop_simps [simp]:
  "issues (leave_loop s) = issues s" "loop_depth (leave_loop s) = loop_depth s - 1"
  by (simp_all add: leave_loop_def)

lemma visit_frame:
  "loop_depth (visit n s) = loop_depth s \<and>
   issues (visit n s) = issues s @ concat (map node_findings (walk (loop_depth s) n))"
  "loop_depth (visit_list ns s) = loop_depth s \<and>
   issues (visit_list ns s) = issues s @ concat (map node_findings (walk_list (loop_depth s) ns))"
  "loop_depth (visit_opt rt s) = loop_depth s \<and>
   issues (visit_opt rt s) = issues s @ concat (map node_findings (walk_opt (loop_depth s) rt))"
proof (induction n s and ns s and rt s rule: visit_visit_list_visit_opt.induct)
  case (2 nm ln bs ks bd ds s)
  then show ?case by (simp add: class_rules_issues)
next
  case (3 nm ln ar bd ds rt s)
  then show ?case by (simp add: function_rules_issues)
next
  case (5 ln ts v s)
  then show ?case by (simp add: assign_rules_issues)
next
  case (6 ln tg it bd el s)
  then show ?case by (simp add: enter_loop_issues)
next
  case (7 ln ts bd el s)
  then show ?case by (simp add: enter_loop_issues)
qed simp_all

lemma filter_concat_map: "filter P (concat (map f xs)) = concat (map (\<lambda>x. filter P (f x)) xs)"
  by (induction xs) simp_all

lemma added_assign_rules:
  "added (assign_rules ln ts) = single_letter_of (d, Assign ln ts v)"
proof (induction ts)
  case Nil
  then show ?case by (simp add: added_def SnarkLinter_def)
next
  case (Cons t ts)
  have u: "added (assign_rules ln (t # ts)) = issues (assign_rules ln (t # ts) SnarkLinter)"
    by (simp add: added_def)
  have e: "issues SnarkLinter = []" by (simp add: SnarkLinter_def)
  show ?case unfolding u using Cons
    by (cases t) (simp_all add: assign_rules_issues e)
qed

lemma is_single_letter_single_letter_of:
  "filter is_single_letter (single_letter_of x) = single_letter_of x"
  by (rule filter_True, cases x rule: single_letter_of.cases) auto

lemma added_class_rules_kinds:
  "filter is_nesting (added (class_rules nm ln bd)) = []"
  "filter is_function_found (added (class_rules nm ln bd)) = []"
  "filter is_single_letter (added (class_rules nm ln bd)) = []"
  by (simp_all add: added_def class_rules_def check_docstring_rules_def SnarkLinter_def Let_def
        split: option.splits list.splits)

lemma added_function_rules_kinds:
  "filter is_nesting (added (function_rules nm ln bd)) = []"
  "filter is_function_found (added (function_rules nm ln bd)) = [(ln, FunctionFound nm ln)]"
  "filter is_single_letter (added (function_rules nm ln bd)) = []"
  by (simp_all add: added_def function_rules_def check_docstring_rules_def SnarkLinter_def Let_def
        split: option.splits list.splits)

lemma single_letter_of_kinds:
  "filter is_nesting (single_letter_of x) = []"
  "filter is_function_found (single_letter_of x) = []"
  by (rule filter_False, cases x rule: single_letter_of.cases, auto)+

lemma node_findings_nesting: "filter is_nesting (node_findings x) = nesting_of x"
proof (cases x)
  case (Pair d n)
  show ?thesis
  proof (cases n)
    case (Assign ln ts v)
    then show ?thesis using Pair
      by (simp add: added_assign_rules[where d = d and v = v] single_letter_of_kinds
            del: single_letter_of.simps)
  qed (simp_all add: Pair added_class_rules_kinds added_function_rules_kinds)
qed

lemma node_findings_existence: "filter is_function_found (node_findings x) = existence_of x"
proof (cases x)
  case (Pair d n)
  show ?thesis
  proof (cases n)
    case (Assign ln ts v)
    then show ?thesis using Pair
      by (simp add: added_assign_rules[where d = d and v = v] single_letter_of_kinds
            del: single_letter_of.simps)
  qed (simp_all add: Pair added_class_rules_kinds added_function_rules_kinds)
qed

lemma node_findings_single_letter:
  "filter is_single_letter (node_findings x) = single_letter_of x"
proof (cases x)
  case (Pair d n)
  show ?thesis
  proof (cases n)
    case (Assign ln ts v)
    then show ?thesis using Pair
      by (simp add: added_assign_rules[where d = d and v = v] is_single_letter_single_letter_of
            del: single_letter_of.simps)
  qed (simp_all add: Pair added_class_rules_kinds added_function_rules_kinds)
qed

lemma and_then_Returned:
  "and_then r f = (Returned, s') \<longleftrightarrow> (\<exists>s1. r = (Returned, s1) \<and> f s1 = (Returned, s'))"
  by (cases r) (auto simp: and_then_def split: outcome.splits)

lemma visit_rl_returned:
  "visit_rl k n s = (Returned, s') \<Longrightarrow> s' = visit n s"
  "visit_list_rl k ns s = (Returned, s') \<Longrightarrow> s' = visit_list ns s"
  "visit_opt_rl k rt s = (Returned, s') \<Longrightarrow> s' = visit_opt rt s"
  by (induction k n s and k ns s and k rt s arbitrary: s' and s' and s'
        rule: visit_rl_visit_list_rl_visit_opt_rl.induct)
     (auto simp: and_then_Returned)

lemma and_then_Returned_I: "r = (Returned, s1) \<Longrightarrow> and_then r f = f s1"
  by (simp add: and_then_def)

lemma height_pos: "0 < height n"
  by (cases n) simp_all

lemma visit_rl_enough:
  "height n \<le> k \<Longrightarrow> visit_rl k n s = (Returned, visit n s)"
  "height_list ns \<le> k \<Longrightarrow> visit_list_rl k ns s = (Returned, visit_list ns s)"
  "height_opt rt \<le> k \<Longrightarrow> visit_opt_rl k rt s = (Returned, visit_opt rt s)"
proof (induction k n s and k ns s and k rt s
        rule: visit_rl_visit_list_rl_visit_opt_rl.induct)
  case (1 n s)
  then show ?case using height_pos[of n] by simp
qed (auto simp: and_then_def)


lemma and_then_Raised:
  "and_then r f = (Raised, s') \<longleftrightarrow>
     r = (Raised, s') \<or> (\<exists>s1. r = (Returned, s1) \<and> f s1 = (Raised, s'))"
  by (cases r) (auto simp: and_then_def split: outcome.splits)

lemma visit_rl_returned_depth:
  "visit_rl k n s = (Returned, s') \<Longrightarrow> loop_depth s' = loop_depth s"
  "visit_list_rl k ns s = (Returned, s') \<Longrightarrow> loop_depth s' = loop_depth s"
  "visit_opt_rl k rt s = (Returned, s') \<Longrightarrow> loop_depth s' = loop_depth s"
  using visit_rl_returned(1)[of k n s s'] visit_rl_returned(2)[of k ns s s']
    visit_rl_returned(3)[of k rt s s']
  by (simp_all add: visit_frame)

lemma visit_rl_raised_depth:
  "visit_rl k n s = (Raised, s') \<Longrightarrow> loop_depth s \<le> loop_depth s'"
  "visit_list_rl k ns s = (Raised, s') \<Longrightarrow> loop_depth s \<le> loop_depth s'"
  "visit_opt_rl k rt s = (Raised, s') \<Longrightarrow> loop_depth s \<le> loop_depth s'"
proof (induction k n s and k ns s and k rt s arbitrary: s' and s' and s'
        rule: visit_rl_visit_list_rl_visit_opt_rl.induct)
  case (3 k nm ln bs ks bd ds s)
  then show ?case
    by (fastforce simp: and_then_Raised dest: visit_rl_returned_depth)
next
  case (4 k nm ln ar bd ds rt s)
  then show ?case
    by (fastforce simp: and_then_Raised dest: visit_rl_returned_depth)
next
  case (5 k nm ln ar bd ds rt s)
  then show ?case
    by (fastforce simp: and_then_Raised dest: visit_rl_returned_depth)
next
  case (6 k ln ts v s)
  then show ?case
    by (fastforce simp: and_then_Raised dest: visit_rl_returned_depth)
next
  case (7 k ln tg it bd el s)
  then show ?case
    by (fastforce simp: and_then_Raised dest: visit_rl_returned_depth)
next
  case (8 k ln ts bd el s)
  then show ?case
    by (fastforce simp: and_then_Raised dest: visit_rl_returned_depth)
next
  case (9 k ln tg it bd el s)
  then show ?case
    by (fastforce simp: and_then_Raised dest: visit_rl_returned_depth)
next
  case (15 k n ns s)
  then show ?case
    by (fastforce simp: and_then_Raised dest: visit_rl_returned_depth)
qed auto

lemma enter_descent_raised:
  assumes "and_then (visit_rl k a (enter_loop f s)) g = (Raised, s')"
    and "\<And>s1 s2. visit_rl k a (enter_loop f s) = (Returned, s1) \<Longrightarrow> g s1 = (Raised, s2)
           \<Longrightarrow> loop_depth s1 \<le> loop_depth s2"
  shows "loop_depth s < loop_depth s'"
  using assms
  by (fastforce simp: and_then_Raised dest: visit_rl_returned_depth visit_rl_raised_depth)

text \<open>
  C3, as the code has it. \<open>visit_For\<close> and \<open>visit_While\<close> increment the depth before they
  descend and decrement it in the statement after \<open>generic_visit\<close>, with nothing that
  would run the decrement when the descent raises. Whenever the visit of a node
  returns, whatever findings the descent has recorded, the linter is the one of the
  visitor without a limit and the depth is back at the value it had before. Whenever
  the visit method of a \<open>for\<close> or \<open>while\<close> loop ends in \<open>RecursionError\<close>, the decrement
  has been skipped and the depth is left above the value it had before. Whenever the
  visit of the tree of a file raises, the exception ends the run of the engine, which
  returns no report.
\<close>

theorem depth_after_visit:
  "(visit_rl k n s = (Returned, s') \<longrightarrow> s' = visit n s \<and> loop_depth s' = loop_depth s) \<and>
   (visit_rl (Suc k) (For ln tg it bd el) s = (Raised, s') \<longrightarrow> loop_depth s < loop_depth s') \<and>
   (visit_rl (Suc k) (While ln ts bd el) s = (Raised, s') \<longrightarrow> loop_depth s < loop_depth s') \<and>
   (fs p = Some f \<and> source_text f = Some src \<and> parse f = Parsed tree \<and>
    fst (visit_rl limit tree SnarkLinter) = Raised \<longrightarrow>
      run_snark_linter limit fs p = Inl RecursionError)"
proof (intro conjI impI)
  assume "visit_rl k n s = (Returned, s')"
  then show "s' = visit n s" "loop_depth s' = loop_depth s"
    by (auto dest: visit_rl_returned(1) visit_rl_returned_depth(1))
next
  assume "visit_rl (Suc k) (For ln tg it bd el) s = (Raised, s')"
  then have "and_then (visit_rl k tg (enter_loop (ln, NestedFor ln) s))
       (\<lambda>s1. and_then (visit_rl k it s1) (\<lambda>s2. and_then (visit_list_rl k bd s2)
          (\<lambda>s3. visit_list_rl k el s3))) = (Raised, s')"
    by (auto simp: and_then_Raised)
  then show "loop_depth s < loop_depth s'"
    by (rule enter_descent_raised)
       (fastforce simp: and_then_Raised
          dest: visit_rl_returned_depth visit_rl_raised_depth)
next
  assume "visit_rl (Suc k) (While ln ts bd el) s = (Raised, s')"
  then have "and_then (visit_rl k ts (enter_loop (ln, NestedWhile ln) s))
       (\<lambda>s1. and_then (visit_list_rl k bd s1) (\<lambda>s2. visit_list_rl k el s2)) = (Raised, s')"
    by (auto simp: and_then_Raised)
  then show "loop_depth s < loop_depth s'"
    by (rule enter_descent_raised)
       (fastforce simp: and_then_Raised
          dest: visit_rl_returned_depth visit_rl_raised_depth)
next
  assume "fs p = Some f \<and> source_text f = Some src \<and> parse f = Parsed tree \<and>
    fst (visit_rl limit tree SnarkLinter) = Raised"
  then show "run_snark_linter limit fs p = Inl RecursionError"
    by (cases "visit_rl limit tree SnarkLinter") (auto simp: run_snark_linter_def)
qed

theorem depth_after_visit_witness:
  "(snd (visit_rl 6 loop_with_calls SnarkLinter) = visit loop_with_calls SnarkLinter \<and>
    loop_depth (snd (visit_rl 6 loop_with_calls SnarkLinter)) = loop_depth SnarkLinter) \<and>
   loop_depth SnarkLinter < loop_depth (snd (visit_rl 5 loop_with_calls SnarkLinter)) \<and>
   loop_depth SnarkLinter < loop_depth (snd (visit_rl 2 while_loop SnarkLinter)) \<and>
   run_snark_linter 6 loop_fs ''a.py'' = Inl RecursionError"
proof -
  have h1: "visit_rl 6 loop_with_calls SnarkLinter
              = (Returned, snd (visit_rl 6 loop_with_calls SnarkLinter))"
    by code_simp
  have h2: "visit_rl (Suc 4) (For 1 (Name ''i'' Store) (Name ''x'' Load)
       [Expr (Other [Name ''f'' Load, Other [Name ''g'' Load, Name ''y'' Load]])] []) SnarkLinter
              = (Raised, snd (visit_rl 5 loop_with_calls SnarkLinter))"
    by code_simp
  have h3: "visit_rl (Suc 1) (While 1 (Name ''c'' Load) [Pass] []) SnarkLinter
              = (Raised, snd (visit_rl 2 while_loop SnarkLinter))"
    by code_simp
  have h4: "loop_fs ''a.py'' = Some loop_file \<and>
      source_text loop_file
        = Some (''for i in x:'' @ [CHR 0x0A] @ ''    f(g(y))'' @ [CHR 0x0A]) \<and>
      parse loop_file = Parsed (Module [loop_with_calls]) \<and>
      fst (visit_rl 6 (Module [loop_with_calls]) SnarkLinter) = Raised"
    by code_simp
  from depth_after_visit[where k = 6 and n = loop_with_calls and s = SnarkLinter
      and s' = "snd (visit_rl 6 loop_with_calls SnarkLinter)"]
  have a: "snd (visit_rl 6 loop_with_calls SnarkLinter) = visit loop_with_calls SnarkLinter \<and>
    loop_depth (snd (visit_rl 6 loop_with_calls SnarkLinter)) = loop_depth SnarkLinter"
    using h1 by blast
  from depth_after_visit[where k = 4 and ln = 1 and tg = "Name ''i'' Store"
      and it = "Name ''x'' Load"
      and bd = "[Expr (Other [Name ''f'' Load, Other [Name ''g'' Load, Name ''y'' Load]])]"
      and el = "[]" and s = SnarkLinter
      and s' = "snd (visit_rl 5 loop_with_calls SnarkLinter)"]
  have b: "loop_depth SnarkLinter < loop_depth (snd (visit_rl 5 loop_with_calls SnarkLinter))"
    using h2 by blast
  from depth_after_visit[where k = 1 and ln = 1 and ts = "Name ''c'' Load"
      and bd = "[Pass]" and el = "[]" and s = SnarkLinter
      and s' = "snd (visit_rl 2 while_loop SnarkLinter)"]
  have c: "loop_depth SnarkLinter < loop_depth (snd (visit_rl 2 while_loop SnarkLinter))"
    using h3 by blast
  from depth_after_visit[where fs = loop_fs and p = "''a.py''" and f = loop_file
      and tree = "Module [loop_with_calls]" and limit = 6]
  have d: "run_snark_linter 6 loop_fs ''a.py'' = Inl RecursionError"
    using h4 by blast
  from a b c d show ?thesis by blast
qed

text \<open>
  The claim C3 as the specification states it fails when the descent raises: with room
  for five nested calls the visit of the loop ends in \<open>RecursionError\<close> inside the body,
  the decrement is skipped, and the depth that was 0 is left at 1.
\<close>

theorem raising_visit_counterexample:
  "fst (visit_rl 5 loop_with_calls SnarkLinter) = Raised \<and>
   loop_depth SnarkLinter = 0 \<and>
   loop_depth (snd (visit_rl 5 loop_with_calls SnarkLinter)) = 1"
  by code_simp

text \<open>
  C4, as the code has it. The nesting findings that a visit appends are, in visiting
  order, one for every \<open>For\<close> or \<open>While\<close> node that has a \<open>For\<close> or \<open>While\<close> node around it
  (entering it makes the depth exceed 1), at the line of that node, and none for a loop
  that has no such node around it. An \<open>async for\<close> loop is an \<open>AsyncFor\<close> node, for which
  the visitor has no method: it is not counted as a level and gets no finding.
\<close>

theorem nesting_findings:
  "filter is_nesting (issues (visit n s)) =
     filter is_nesting (issues s) @ concat (map nesting_of (walk (loop_depth s) n))"
  by (simp add: visit_frame filter_concat_map node_findings_nesting)

theorem nesting_findings_witness:
  "filter is_nesting (issues (visit three_loops SnarkLinter))
     = [(2, NestedWhile 2), (3, NestedFor 3)]"
proof -
  have e: "filter is_nesting (issues SnarkLinter)
             @ concat (map nesting_of (walk (loop_depth SnarkLinter) three_loops))
           = [(2, NestedWhile 2), (3, NestedFor 3)]"
    by code_simp
  show ?thesis by (rule trans[OF nesting_findings e])
qed

lemma single_loop_no_nesting_finding:
  "filter is_nesting
     (issues (visit (Module [For ln (Name i Store) (Name x Load) [Pass] []]) SnarkLinter))
     = []"
  by (simp add: SnarkLinter_def enter_loop_def leave_loop_def Store_def Load_def Pass_def)

lemma loop_in_loop_one_nesting_finding:
  "filter is_nesting
     (issues (visit (Module [While l1 (Name c Load)
                               [For l2 (Name i Store) (Name x Load) [Pass] []] []])
                SnarkLinter)) = [(l2, NestedFor l2)]"
  by (simp add: SnarkLinter_def enter_loop_def leave_loop_def append_issue_def
        Store_def Load_def Pass_def)

text \<open>
  The claim C4 as the specification states it fails for the looping construct
  \<open>async for\<close>: an \<open>async for\<close> inside a \<open>for\<close>, and a \<open>for\<close> inside an \<open>async for\<close>, are
  loops nested inside one loop, and the visit records no finding for either.
\<close>

theorem async_for_counterexample:
  "issues (visit async_loops SnarkLinter) = []"
  by code_simp

text \<open>
  C7, as the code has it. The existence findings that a visit appends are, in visiting
  order, exactly one for every \<open>FunctionDef\<close> node of the tree, at its line and with its
  name, with no condition on the node; an \<open>async def\<close> is an \<open>AsyncFunctionDef\<close> node, for
  which the visitor has no method, and gets none.
\<close>

theorem existence_findings:
  "filter is_function_found (issues (visit n s)) =
     filter is_function_found (issues s) @ concat (map existence_of (walk (loop_depth s) n))"
  by (simp add: visit_frame filter_concat_map node_findings_existence)

theorem existence_findings_witness:
  "filter is_function_found (issues (visit two_routines SnarkLinter))
     = [(1, FunctionFound ''f'' 1)]"
proof -
  have e: "filter is_function_found (issues SnarkLinter)
             @ concat (map existence_of (walk (loop_depth SnarkLinter) two_routines))
           = [(1, FunctionFound ''f'' 1)]"
    by code_simp
  show ?thesis by (rule trans[OF existence_findings e])
qed

text \<open>
  The claim C7 as the specification states it fails for the routine form \<open>async def\<close>:
  the visit of the file records no finding at all.
\<close>

theorem async_routine_counterexample:
  "issues (visit async_routine SnarkLinter) = []"
  by code_simp

text \<open>
  C9, as the code has it. The single-letter findings that a visit appends are, in
  visiting order, one for every target of every \<open>Assign\<close> node that is a name of exactly
  one alphabetic character, at the line of the assignment: each target of a chained
  assignment is inspected; a tuple, attribute or subscript target is not a name and
  an augmented assignment is not an \<open>Assign\<close> node, and they get none.
\<close>

theorem single_letter_findings:
  "filter is_single_letter (issues (visit n s)) =
     filter is_single_letter (issues s)
       @ concat (map single_letter_of (walk (loop_depth s) n))"
  by (simp add: visit_frame filter_concat_map node_findings_single_letter)

theorem single_letter_findings_witness:
  "filter is_single_letter (issues (visit assignments SnarkLinter))
     = [(4, SingleLetterVariable ''q'' 4)]"
proof -
  have e: "filter is_single_letter (issues SnarkLinter)
             @ concat (map single_letter_of (walk (loop_depth SnarkLinter) assignments))
           = [(4, SingleLetterVariable ''q'' 4)]"
    by code_simp
  show ?thesis by (rule trans[OF single_letter_findings e])
qed

text \<open>
  The claim C9 as the specification states it fails for the chained assignment
  \<open>x = y = 5\<close>: both targets get a finding.
\<close>

theorem chained_assignment_counterexample:
  "issues (visit chained_assignment SnarkLinter)
     = [(1, SingleLetterVariable ''x'' 1), (1, SingleLetterVariable ''y'' 1)]"
  by code_simp

section \<open>Properties of the engine\<close>



text \<open>
  C2, as the code has it. When the parser raises \<open>SyntaxError\<close>, the engine returns
  exactly one finding, whatever the tree rules and the scans would have found: at the
  line of the parser's error, or at line 1 when the error carries no line (or the line
  0, which the code takes as no line). When the parser fails with another exception,
  it is not caught: the exception leaves the engine and no finding is returned.
\<close>

theorem syntax_error_single_finding:
  assumes "fs p = Some f" and "source_text f = Some src"
  shows "(parse f = SyntaxError e \<longrightarrow>
            run_snark_linter limit fs p =
              Inr [(syntax_error_line e, SyntaxErrorFound (syntax_error_line e))] \<and>
            syntax_error_line e = (case e of None \<Rightarrow> 1 | Some l \<Rightarrow> if l = 0 then 1 else l)) \<and>
         (parse f = OtherError x \<longrightarrow> run_snark_linter limit fs p = Inl x)"
  using assms by (simp add: run_snark_linter_def syntax_error_line_def Let_def)

theorem syntax_error_single_finding_witness:
  "run_snark_linter 10 broken_fs ''a.py'' = Inr [(3, SyntaxErrorFound 3)] \<and>
   run_snark_linter 10 deep_fs ''a.py'' = Inl RecursionError"
proof -
  have h1: "broken_fs ''a.py'' = Some broken_file" by (simp add: broken_fs_def)
  have h2: "source_text broken_file
              = Some (''import a, b'' @ [CHR 0x0A] @ ''# hi'' @ [CHR 0x0A] @ ''x = ('')"
    by (simp add: broken_file_def)
  have h3: "parse broken_file = SyntaxError (Some 3)" by (simp add: broken_file_def)
  have g1: "deep_fs ''a.py'' = Some deep_file" by (simp add: deep_fs_def)
  have g2: "source_text deep_file
              = Some (''x = '' @ replicate 3000 CHR ''-'' @ ''1'' @ [CHR 0x0A])"
    by (simp add: deep_file_def)
  have g3: "parse deep_file = OtherError RecursionError" by (simp add: deep_file_def)
  from syntax_error_single_finding[where fs = broken_fs and p = "''a.py''" and f = broken_file
      and e = "Some 3" and limit = 10, OF h1 h2]
  have a: "run_snark_linter 10 broken_fs ''a.py'' = Inr [(3, SyntaxErrorFound 3)]"
    using h3 by (simp add: syntax_error_line_def)
  from syntax_error_single_finding[where fs = deep_fs and p = "''a.py''" and f = deep_file
      and x = RecursionError and limit = 10, OF g1 g2]
  have b: "run_snark_linter 10 deep_fs ''a.py'' = Inl RecursionError"
    using g3 by simp
  from a b show ?thesis by simp
qed

text \<open>
  The claim C2 as the specification states it fails for a file that fails to parse
  without a \<open>SyntaxError\<close>: on the line of 3000 minus signs the parser raises
  \<open>RecursionError\<close>, and the engine ends with that exception instead of one finding.
\<close>

theorem parser_exception_counterexample:
  "run_snark_linter 1000 deep_fs ''a.py'' = Inl RecursionError"
  by (simp add: run_snark_linter_def deep_fs_def deep_file_def)

text \<open>
  C6, as the code has it. When the tokenizer raises, the exception leaves
  \<open>find_comment_issues\<close>, which returns no list, and the run of the engine on a file
  that has parsed ends without a report: with the tokenizer's error when the visit of
  the tree has returned, and with the \<open>RecursionError\<close> of the visit otherwise.
\<close>

theorem tokenizer_error_aborts:
  assumes "fs p = Some f" and "tokens f = None"
    and "source_text f = Some src" and "parse f = Parsed tree"
  shows "find_comment_issues fs p = Inl TokenizerError \<and>
         run_snark_linter limit fs p =
           (if fst (visit_rl limit tree SnarkLinter) = Returned then Inl TokenizerError
            else Inl RecursionError)"
  using assms
  by (cases "visit_rl limit tree SnarkLinter")
     (auto simp: find_comment_issues_def run_snark_linter_def split: outcome.splits)

theorem tokenizer_error_aborts_witness:
  "find_comment_issues undeclared_fs ''a.py'' = Inl TokenizerError \<and>
   run_snark_linter 10 undeclared_fs ''a.py'' = Inl TokenizerError"
proof -
  have h1: "undeclared_fs ''a.py'' = Some undeclared_file" by (simp add: undeclared_fs_def)
  have h2: "tokens undeclared_file = None" by (simp add: undeclared_file_def)
  have h3: "source_text undeclared_file
              = Some (''# coding: foobar'' @ [CHR 0x0A] @ ''x = 1'' @ [CHR 0x0A])"
    by (simp add: undeclared_file_def)
  have h4: "parse undeclared_file = Parsed undeclared_tree"
    by (simp add: undeclared_file_def)
  have v: "fst (visit_rl 10 undeclared_tree SnarkLinter) = Returned" by code_simp
  from tokenizer_error_aborts[where fs = undeclared_fs and p = "''a.py''"
      and f = undeclared_file and limit = 10, OF h1 h2 h3 h4]
  show ?thesis by (simp add: v)
qed

text \<open>
  The claim C6 as the specification states it fails on that file: the comment scan does
  not return an empty list, and the engine returns no report, although the visit of the
  tree has returned with a finding.
\<close>

theorem tokenizer_error_counterexample:
  "find_comment_issues undeclared_fs ''a.py'' \<noteq> Inr [] \<and>
   run_snark_linter 10 undeclared_fs ''a.py'' = Inl TokenizerError \<and>
   visit_rl 10 undeclared_tree SnarkLinter
     = (Returned, \<lparr>issues = [(2, SingleLetterVariable ''x'' 2)], loop_depth = 0\<rparr>)"
  by code_simp

section \<open>Properties of the naming pattern\<close>

declare rmatch.simps [simp del]

lemma in_rmatch_Cls:
  "t \<in> set (rmatch (Cls rs) s) \<longleftrightarrow> (\<exists>c. s = c # t \<and> in_class rs c)"
  by (cases s) (auto simp: rmatch.simps)

lemma in_rmatch_Seq:
  "t \<in> set (rmatch (Seq a b) s) \<longleftrightarrow> (\<exists>u \<in> set (rmatch a s). t \<in> set (rmatch b u))"
  by (auto simp: rmatch.simps)

lemma in_rmatch_Star:
  "t \<in> set (rmatch (Star a) s) \<longleftrightarrow>
     t = s \<or> (\<exists>u \<in> set (rmatch a s). length u < length s \<and> t \<in> set (rmatch (Star a) u))"
  by (subst rmatch.simps) (auto split: if_splits)

lemma in_rmatch_Star_Cls:
  "t \<in> set (rmatch (Star (Cls rs)) s) \<longleftrightarrow> (\<exists>u. s = u @ t \<and> list_all (in_class rs) u)"
proof (induction s)
  case Nil
  show ?case by (subst in_rmatch_Star) (auto simp: in_rmatch_Cls)
next
  case (Cons c cs)
  have "t \<in> set (rmatch (Star (Cls rs)) (c # cs)) \<longleftrightarrow>
          t = c # cs \<or> (in_class rs c \<and> t \<in> set (rmatch (Star (Cls rs)) cs))"
    by (subst in_rmatch_Star) (use in_rmatch_Cls in auto)
  also have "\<dots> \<longleftrightarrow> t = c # cs \<or> (in_class rs c \<and> (\<exists>u. cs = u @ t \<and> list_all (in_class rs) u))"
    by (simp only: Cons)
  also have "\<dots> \<longleftrightarrow> (\<exists>u. c # cs = u @ t \<and> list_all (in_class rs) u)"
    by (auto simp: Cons_eq_append_conv)
  finally show ?case .
qed

lemma upper_digit_alnum: "in_class upper_digit c \<Longrightarrow> in_class alnum c"
  by (auto simp: in_class_def upper_digit_def alnum_def)

lemma newline_not_alnum: "\<not> in_class alnum (CHR 0x0A)"
  by (simp add: in_class_def alnum_def)

lemma in_rmatch_group:
  "t \<in> set (rmatch (Star (Seq (Cls upper_digit) (Star (Cls alnum)))) s) \<Longrightarrow>
   \<exists>u. s = u @ t \<and> list_all (in_class alnum) u"
proof (induction "length s" arbitrary: s rule: less_induct)
  case less
  from less.prems consider "t = s"
    | u where "u \<in> set (rmatch (Seq (Cls upper_digit) (Star (Cls alnum))) s)"
        "length u < length s" "t \<in> set (rmatch (Star (Seq (Cls upper_digit) (Star (Cls alnum)))) u)"
    by (subst (asm) in_rmatch_Star) auto
  then show ?case
  proof cases
    case 1
    then show ?thesis by simp
  next
    case 2
    from 2(1) obtain c v where s: "s = c # v @ u" and c: "in_class upper_digit c"
      and v: "list_all (in_class alnum) v"
      by (auto simp: in_rmatch_Seq in_rmatch_Cls in_rmatch_Star_Cls)
    from less.hyps[OF 2(2) 2(3)] obtain w where w: "u = w @ t" "list_all (in_class alnum) w"
      by auto
    have "s = (c # v @ w) @ t" using s w by simp
    moreover have "list_all (in_class alnum) (c # v @ w)"
      using c v w upper_digit_alnum by simp
    ultimately show ?thesis by blast
  qed
qed

lemma in_rmatch_CAPWORDS:
  "t \<in> set (rmatch CAPWORDS_REGEX s) \<longleftrightarrow>
     (\<exists>c u. s = c # u @ t \<and> in_class upper_az c \<and> u \<noteq> [] \<and> list_all (in_class alnum) u)"
  (is "?L \<longleftrightarrow> ?R")
proof
  assume ?L
  then obtain c a v t1 where s: "s = c # a # v @ t1" and c: "in_class upper_az c"
    and a: "in_class alnum a" and v: "list_all (in_class alnum) v"
    and t1: "t \<in> set (rmatch (Star (Seq (Cls upper_digit) (Star (Cls alnum)))) t1)"
    by (auto simp: CAPWORDS_REGEX_def Plus_def in_rmatch_Seq in_rmatch_Cls in_rmatch_Star_Cls)
  from in_rmatch_group[OF t1] obtain w where w: "t1 = w @ t" "list_all (in_class alnum) w"
    by auto
  have "s = c # (a # v @ w) @ t" using s w by simp
  moreover have "list_all (in_class alnum) (a # v @ w)" using a v w by simp
  ultimately show ?R using c by blast
next
  assume ?R
  then obtain c u where s: "s = c # u @ t" and c: "in_class upper_az c" and u: "u \<noteq> []"
    and au: "list_all (in_class alnum) u" by auto
  from u obtain a v where uv: "u = a # v" by (cases u) auto
  have g: "t \<in> set (rmatch (Star (Seq (Cls upper_digit) (Star (Cls alnum)))) t)"
    by (subst in_rmatch_Star) simp
  have p: "t \<in> set (rmatch (Plus (Cls alnum)) (u @ t))"
    using au uv by (auto simp: Plus_def in_rmatch_Seq in_rmatch_Cls in_rmatch_Star_Cls)
  show ?L unfolding CAPWORDS_REGEX_def
    apply (subst in_rmatch_Seq)
    apply (rule bexI[where x = "u @ t"])
     apply (subst in_rmatch_Seq)
     apply (rule bexI[where x = t])
      apply (rule g)
     apply (rule p)
    apply (simp add: in_rmatch_Cls s c)
    done
qed

lemma re_match_CAPWORDS: "re_match CAPWORDS_REGEX nm \<longleftrightarrow> capwords_shape nm"
proof -
  have "re_match CAPWORDS_REGEX nm \<longleftrightarrow>
      [] \<in> set (rmatch CAPWORDS_REGEX nm) \<or> [CHR 0x0A] \<in> set (rmatch CAPWORDS_REGEX nm)"
    by (auto simp: re_match_def list_ex_iff)
  then have m: "re_match CAPWORDS_REGEX nm \<longleftrightarrow>
      (\<exists>c u. (nm = c # u \<or> nm = c # u @ [CHR 0x0A]) \<and> in_class upper_az c \<and> u \<noteq> [] \<and>
              list_all (in_class alnum) u)"
    unfolding in_rmatch_CAPWORDS by (simp only: append_Nil2) blast
  show ?thesis
  proof
    assume "re_match CAPWORDS_REGEX nm"
    then obtain c u where nm: "nm = c # u \<or> nm = c # u @ [CHR 0x0A]"
      and c: "in_class upper_az c" and u: "u \<noteq> []" and au: "list_all (in_class alnum) u"
      using m by blast
    from nm show "capwords_shape nm"
    proof
      assume e: "nm = c # u"
      have "last u \<in> set u" using u by simp
      then have "in_class alnum (last u)" using au by (simp add: list_all_iff)
      then have "last u \<noteq> CHR 0x0A" using newline_not_alnum by auto
      then show ?thesis using e c u au by (simp add: capwords_shape_def chomp_def)
    next
      assume e: "nm = c # u @ [CHR 0x0A]"
      then show ?thesis using c u au by (simp add: capwords_shape_def chomp_def butlast_append)
    qed
  next
    assume sh: "capwords_shape nm"
    show "re_match CAPWORDS_REGEX nm"
    proof (cases "nm \<noteq> [] \<and> last nm = CHR 0x0A")
      case True
      then have "nm = butlast nm @ [CHR 0x0A]" by (metis append_butlast_last_id)
      moreover from sh True obtain c cs where "butlast nm = c # cs" "in_class upper_az c"
        "cs \<noteq> []" "list_all (in_class alnum) cs"
        by (auto simp: capwords_shape_def chomp_def split: list.splits)
      ultimately show ?thesis unfolding m by (metis append_Cons)
    next
      case False
      with sh obtain c cs where "nm = c # cs" "in_class upper_az c"
        "cs \<noteq> []" "list_all (in_class alnum) cs"
        by (auto simp: capwords_shape_def chomp_def split: list.splits if_splits)
      then show ?thesis unfolding m by blast
    qed
  qed
qed

lemma added_class_rules_naming:
  "filter is_class_naming (added (class_rules nm ln bd)) =
     (if capwords_shape nm then [] else [(ln, ClassNotCapWords nm ln)])"
  by (simp add: added_def class_rules_def check_docstring_rules_def SnarkLinter_def Let_def
        re_match_CAPWORDS split: option.splits list.splits)

lemma added_function_rules_naming:
  "filter is_class_naming (added (function_rules nm ln bd)) = []"
  by (simp add: added_def function_rules_def check_docstring_rules_def SnarkLinter_def Let_def
        split: option.splits list.splits)

lemma single_letter_of_naming: "filter is_class_naming (single_letter_of x) = []"
  by (rule filter_False, cases x rule: single_letter_of.cases, auto)

lemma node_findings_class_naming:
  "filter is_class_naming (node_findings x) = class_naming_of x"
proof (cases x)
  case (Pair d n)
  show ?thesis
  proof (cases n)
    case (Assign ln ts v)
    then show ?thesis using Pair
      by (simp add: added_assign_rules[where d = d and v = v] single_letter_of_naming
            del: single_letter_of.simps)
  qed (simp_all add: Pair added_class_rules_naming added_function_rules_naming)
qed

text \<open>
  C5, as the code has it. The naming findings that a visit appends are, in visiting
  order, one for every class definition whose name does not match \<open>CAPWORDS_REGEX\<close>,
  at the line of the definition, and the names that match are those made of an
  uppercase letter A to Z followed by at least one letter or digit (a newline may
  follow, as \<open>$\<close> allows). A name of one character does not match.
\<close>

theorem class_naming_findings:
  "filter is_class_naming (issues (visit n s)) =
     filter is_class_naming (issues s) @ concat (map class_naming_of (walk (loop_depth s) n))"
  by (simp add: visit_frame filter_concat_map node_findings_class_naming)

theorem class_naming_findings_witness:
  "filter is_class_naming (issues (visit class_names SnarkLinter))
     = [(3, ClassNotCapWords ''myClass'' 3)]"
proof -
  have e: "filter is_class_naming (issues SnarkLinter)
             @ concat (map class_naming_of (walk (loop_depth SnarkLinter) class_names))
           = [(3, ClassNotCapWords ''myClass'' 3)]"
    by code_simp
  show ?thesis by (rule trans[OF class_naming_findings e])
qed

text \<open>
  The claim C5 as the specification states it fails for the name \<open>A\<close>, which matches
  \<open>^[A-Z][A-Za-z0-9]*$\<close>: the visit of the class records the naming finding.
\<close>

theorem single_letter_class_counterexample:
  "issues (visit single_letter_class SnarkLinter) = [(1, ClassNotCapWords ''A'' 1)]"
  by code_simp

section \<open>Properties of the docstring accessor\<close>

lemma expandtabs_from_newlines:
  "expandtabs_from col (replicate k (CHR 0x0A)) = replicate k (CHR 0x0A)"
  by (induction k arbitrary: col) simp_all

lemma isspace_space: "isspace CHR '' ''"
  by (simp add: isspace_def)

lemma expandtabs_from_blank:
  "list_all isspace w \<Longrightarrow> CHR 0x0A \<notin> set w \<Longrightarrow>
   \<exists>w'. expandtabs_from col (w @ replicate k (CHR 0x0A)) = w' @ replicate k (CHR 0x0A) \<and>
        list_all isspace w' \<and> CHR 0x0A \<notin> set w'"
proof (induction w arbitrary: col)
  case Nil
  then show ?case by (simp add: expandtabs_from_newlines)
next
  case (Cons c w)
  from Cons.prems have w: "list_all isspace w" "CHR 0x0A \<notin> set w" and c: "isspace c" "c \<noteq> CHR 0x0A"
    by auto
  show ?case
  proof (cases "c = CHR 0x09")
    case True
    from Cons.IH[OF w, of "col + (8 - col mod 8)"] obtain w' where
      w': "expandtabs_from (col + (8 - col mod 8)) (w @ replicate k (CHR 0x0A)) = w' @ replicate k (CHR 0x0A)"
      "list_all isspace w'" "CHR 0x0A \<notin> set w'" by blast
    show ?thesis
      apply (rule exI[where x = "replicate (8 - col mod 8) CHR '' '' @ w'"])
      using True w' isspace_space by (simp add: list_all_iff)
  next
    case False
    let ?col = "if c = CHR 0x0A \<or> c = CHR 0x0D then 0 else col + 1"
    from Cons.IH[OF w, of ?col] obtain w' where
      w': "expandtabs_from ?col (w @ replicate k (CHR 0x0A)) = w' @ replicate k (CHR 0x0A)"
      "list_all isspace w'" "CHR 0x0A \<notin> set w'" by blast
    show ?thesis
      apply (rule exI[where x = "c # w'"])
      using False w' c by simp
  qed
qed

lemma split_nl_newlines: "split_nl (replicate k (CHR 0x0A)) = replicate (Suc k) []"
  by (induction k) simp_all

lemma split_nl_blank:
  "CHR 0x0A \<notin> set w \<Longrightarrow> split_nl (w @ replicate k (CHR 0x0A)) = w # replicate k []"
  by (induction w) (auto simp: split_nl_newlines)

lemma margin_of_empty_lines: "margin_of (replicate k []) m = m"
  by (induction k) (simp_all add: lstrip_def)

lemma lstrip_blank: "list_all isspace w \<Longrightarrow> lstrip w = []"
  by (simp add: lstrip_def list_all_iff)

lemma dropWhile_empty_lines:
  "(\<forall>l \<in> set ls. l = []) \<Longrightarrow> dropWhile (\<lambda>l. l = []) ls = []"
  by (simp add: dropWhile_eq_Nil_conv)

lemma cleandoc_blank:
  assumes "list_all isspace w" and "CHR 0x0A \<notin> set w"
  shows "cleandoc (w @ replicate k (CHR 0x0A)) = []"
proof -
  from expandtabs_from_blank[OF assms, of 0 k] obtain w' where
    w': "expandtabs (w @ replicate k (CHR 0x0A)) = w' @ replicate k (CHR 0x0A)"
    "list_all isspace w'" "CHR 0x0A \<notin> set w'"
    unfolding expandtabs_def by blast
  have l: "split_nl (expandtabs (w @ replicate k (CHR 0x0A))) = w' # replicate k []"
    using w' by (simp add: split_nl_blank)
  show ?thesis
    unfolding cleandoc_def l Let_def
    by (simp add: margin_of_empty_lines lstrip_blank[OF w'(2)] dropWhile_empty_lines)
qed


text \<open>
  C10, as the code has it. Let the leading string literal of a class definition or of
  a routine definition written with \<open>def\<close> be empty, or have only whitespace on its
  first line and nothing but line breaks after it. Then the docstring accessor gives
  the empty string, and what the visit of the definition records before it descends
  is the naming finding, when one is due, and the missing-docstring finding: none of
  the three findings of the docstring shape is recorded for it. A routine written with
  \<open>async def\<close> gets no docstring finding of either kind: its visit only descends.
\<close>

theorem blank_docstring:
  assumes "list_all isspace w" and "CHR 0x0A \<notin> set w"
    and "bd = Expr (Constant (Str (w @ replicate k (CHR 0x0A)))) # rest"
  shows "visit (ClassDef nm ln bs ks bd ds) s =
           visit_list ds (visit_list bd (visit_list ks (visit_list bs
             (s\<lparr>issues := issues s
                  @ (if re_match CAPWORDS_REGEX nm then [] else [(ln, ClassNotCapWords nm ln)])
                  @ [(ln, ClassNoDocstring nm ln)]\<rparr>)))) \<and>
         visit (FunctionDef nm ln ar bd ds rt) s =
           visit_opt rt (visit_list ds (visit_list bd (visit ar
             (s\<lparr>issues := issues s @ [(ln, FunctionFound nm ln)]
                  @ (if re_match SNAKE_CASE_REGEX nm then []
                     else [(ln, FunctionNotSnakeCase nm ln)])
                  @ [(ln, FunctionNoDocstring nm ln)]\<rparr>)))) \<and>
         visit (AsyncFunctionDef nm ln ar bd ds rt) s =
           visit_opt rt (visit_list ds (visit_list bd (visit ar s)))"
  using assms(3) cleandoc_blank[OF assms(1,2), of k]
  by (simp add: class_rules_def function_rules_def Let_def append_issue_def)

theorem blank_docstring_witness:
  "issues (visit blank_docstring_class SnarkLinter) = [(1, ClassNoDocstring ''Ab'' 1)]"
proof -
  have h1: "list_all isspace [CHR '' '', CHR 0x09]" by (simp add: isspace_def)
  have h2: "CHR 0x0A \<notin> set [CHR '' '', CHR 0x09]" by simp
  have m1: "re_match CAPWORDS_REGEX ''Ab''" by code_simp
  from blank_docstring[OF h1 h2 refl, where k = 2 and rest = "[Pass]" and nm = "''Ab''"
      and ln = 1 and s = SnarkLinter and bs = "[]" and ks = "[]" and ds = "[]"]
  show ?thesis by (simp add: m1 blank_docstring_class_def SnarkLinter_def Pass_def)
qed

text \<open>
  The claim C10 as the specification states it fails for a literal of whitespace that
  has spaces after a line break: the accessor returns the four spaces, the
  missing-docstring finding is not recorded, and the three shape findings are.
\<close>

theorem blank_docstring_counterexample:
  "issues (visit blank_docstring_routine SnarkLinter) =
     [(1, FunctionFound ''f'' 1),
      (1, DocstringTooShort (FunctionEntity ''f'') 1 4),
      (1, DocstringNoCapital (FunctionEntity ''f'') 1),
      (1, DocstringNoPunctuation (FunctionEntity ''f'') 1)]"
  by code_simp

end
